(* ===== verification/WBEM_Prelude.thy ===== *)
theory WBEM_Prelude
  imports Main "HOL-Library.Word"
begin

text \<open>
  Shared vocabulary of the development: the exceptions the modelled code throws, results
  as a sum of an exception and a value, the sequencing of such results, array accesses that
  report an index outside the array, and generic facts about lists and optional results.

  An exception of the C++ code is a value of type \<open>exn\<close>; a function that may throw returns
  \<open>exn + 'a\<close>, with \<open>Inl\<close> for the exception. A \<^verbatim>\<open>BLOCXX_ASSERT\<close> that fails is
  \<open>AssertionException\<close> and an array index outside the array is \<open>OutOfBoundsException\<close>,
  whatever the build options make of them. \<open>UndefinedBehaviour\<close> marks a step the language leaves
  undefined: an access through a null handle, a buffer overrun, a signed overflow.
\<close>

section \<open>Exceptions and results\<close>

text \<open>The codes of \<^verbatim>\<open>CIMException\<close> the modelled code uses.\<close>

datatype CIMErrorCode = FAILED | INVALID_PARAMETER | NOT_FOUND | ALREADY_EXISTS | NO_SUCH_PROPERTY

datatype exn =
    TypeMismatchException
  | NoSuchPropertyException string
  | AssertionException
  | OutOfBoundsException
  | InvalidQuery
  | IOException
  | BadCIMSignatureException
  | StringConversionException
  | CIMDateTimeException
  | ValueCastException
  | NULLValueException
  | HDBException
  | CIMException CIMErrorCode
  | UndefinedBehaviour

type_synonym 'a result = "exn + 'a"

named_theorems result_simps

definition bind_r :: "'a result \<Rightarrow> ('a \<Rightarrow> 'b result) \<Rightarrow> 'b result" where
  "bind_r m f = (case m of Inl e \<Rightarrow> Inl e | Inr x \<Rightarrow> f x)"

lemma bind_r_Inr [simp]: "bind_r (Inr x) f = f x"
  by (simp add: bind_r_def)

lemma bind_r_Inl [simp]: "bind_r (Inl e) f = Inl e"
  by (simp add: bind_r_def)

lemma bind_r_eq_Inr [result_simps]: "bind_r m f = Inr y \<longleftrightarrow> (\<exists>x. m = Inr x \<and> f x = Inr y)"
  by (cases m) auto

lemma bind_r_assoc: "bind_r (bind_r m f) g = bind_r m (\<lambda>x. bind_r (f x) g)"
  by (cases m) auto

lemma bind_r_cong [fundef_cong]:
  "m = m' \<Longrightarrow> (\<And>x. m' = Inr x \<Longrightarrow> f x = f' x) \<Longrightarrow> bind_r m f = bind_r m' f'"
  by (cases m') auto

text \<open>A sequence of steps over a list, stopping at the first exception.\<close>

fun fold_r :: "('a \<Rightarrow> 's \<Rightarrow> 's result) \<Rightarrow> 'a list \<Rightarrow> 's \<Rightarrow> 's result" where
  "fold_r f [] s = Inr s"
| "fold_r f (x # xs) s = bind_r (f x s) (fold_r f xs)"

lemma fold_r_append [simp]: "fold_r f (xs @ ys) s = bind_r (fold_r f xs s) (fold_r f ys)"
proof (induction xs arbitrary: s)
  case (Cons x xs)
  then have "fold_r f (xs @ ys) = (\<lambda>s. bind_r (fold_r f xs s) (fold_r f ys))" by blast
  then show ?case by (simp add: bind_r_assoc)
qed simp

text \<open>The same over every element, collecting the results.\<close>

fun map_r :: "('a \<Rightarrow> 'b result) \<Rightarrow> 'a list \<Rightarrow> 'b list result" where
  "map_r f [] = Inr []"
| "map_r f (x # xs) = bind_r (f x) (\<lambda>y. bind_r (map_r f xs) (\<lambda>ys. Inr (y # ys)))"

lemma map_r_Inr: "(\<And>x. x \<in> set xs \<Longrightarrow> f x = Inr (g x)) \<Longrightarrow> map_r f xs = Inr (map g xs)"
  by (induction xs) auto

section \<open>Loops that may not return\<close>

text \<open>
  A loop whose termination is not structural is a \<^theory_text>\<open>partial_function\<close> into
  \<open>'a result option\<close>: \<open>None\<close> is a loop that does not return. The sequencing below runs the
  second part once the first has returned without an exception.
\<close>

definition bind_o :: "'a result option \<Rightarrow> ('a \<Rightarrow> 'b result option) \<Rightarrow> 'b result option" where
  "bind_o m f = (case m of None \<Rightarrow> None | Some (Inl e) \<Rightarrow> Some (Inl e) | Some (Inr x) \<Rightarrow> f x)"

lemma bind_o_simps [simp]:
  "bind_o None f = None"
  "bind_o (Some (Inl e)) f = Some (Inl e)"
  "bind_o (Some (Inr x)) f = f x"
  by (simp_all add: bind_o_def)

section \<open>Arrays\<close>

definition arr_get :: "'a list \<Rightarrow> int \<Rightarrow> 'a result" where
  "arr_get xs i = (if 0 \<le> i \<and> i < int (length xs) then Inr (xs ! nat i) else Inl OutOfBoundsException)"

definition arr_upd :: "'a list \<Rightarrow> int \<Rightarrow> ('a \<Rightarrow> 'a) \<Rightarrow> 'a list result" where
  "arr_upd xs i f = (if 0 \<le> i \<and> i < int (length xs) then Inr (xs[nat i := f (xs ! nat i)])
                     else Inl OutOfBoundsException)"

text \<open>\<open>Array::insert (i, x)\<close> puts \<open>x\<close> before the element at position \<open>i\<close>.\<close>

definition arr_insert :: "'a list \<Rightarrow> nat \<Rightarrow> 'a \<Rightarrow> 'a list" where
  "arr_insert xs i x = take i xs @ x # drop i xs"

lemma arr_get_int [simp]: "k < length xs \<Longrightarrow> arr_get xs (int k) = Inr (xs ! k)"
  by (simp add: arr_get_def)

lemma arr_get_in: "0 \<le> i \<Longrightarrow> i < int (length xs) \<Longrightarrow> arr_get xs i = Inr (xs ! nat i)"
  by (simp add: arr_get_def)

lemma arr_upd_in: "0 \<le> i \<Longrightarrow> i < int (length xs) \<Longrightarrow> arr_upd xs i f = Inr (xs[nat i := f (xs ! nat i)])"
  by (simp add: arr_upd_def)

lemma arr_get_iff [result_simps]:
  "arr_get xs i = Inr y \<longleftrightarrow> 0 \<le> i \<and> i < int (length xs) \<and> y = xs ! nat i"
  by (auto simp: arr_get_def)

lemma arr_upd_iff [result_simps]:
  "arr_upd xs i f = Inr ys \<longleftrightarrow> 0 \<le> i \<and> i < int (length xs) \<and> ys = xs[nat i := f (xs ! nat i)]"
  by (auto simp: arr_upd_def)

lemma length_arr_insert [simp]: "length (arr_insert xs i x) = Suc (length xs)"
  by (simp add: arr_insert_def)

lemma nth_arr_insert:
  "i \<le> length xs \<Longrightarrow> j \<le> length xs \<Longrightarrow>
   arr_insert xs i x ! j = (if j < i then xs ! j else if j = i then x else xs ! (j - 1))"
  by (auto simp: arr_insert_def nth_append min_def nth_Cons')

end
