(* ===== verification/WQL_Operand.thy ===== *)
theory WQL_Operand
  imports WBEM_Prelude
begin

text \<open>
  The operations and operands of a WQL where clause: \<^verbatim>\<open>src/src/common/OW_WQLOperation.hpp\<close>,
  \<^verbatim>\<open>src/src/common/OW_WQLOperand.hpp\<close> and \<^verbatim>\<open>.cpp\<close>, and the comparison of two operands in
  \<^verbatim>\<open>src/src/common/OW_WQLCompile.cpp\<close>.

  What the code takes from outside the repository is a parameter \<open>X\<close> of type \<open>'r ext\<close>: the
  conversions to and the ordering of \<^verbatim>\<open>blocxx::String\<close>, and the type \<open>'r\<close> of \<^verbatim>\<open>Real64\<close> values
  with its comparisons and the conversion from \<^verbatim>\<open>Int64\<close>. Strings themselves are their
  characters, and two strings are equal when their characters are.
\<close>

section \<open>Operations\<close>

datatype WQLOperation =
    WQL_OR | WQL_AND | WQL_NOT | WQL_EQ | WQL_NE | WQL_LT | WQL_LE | WQL_GT | WQL_GE
  | WQL_DO_NOTHING | WQL_ISA

fun WQLOperationToString :: "WQLOperation \<Rightarrow> string" where
  "WQLOperationToString WQL_OR = ''OR''"
| "WQLOperationToString WQL_AND = ''AND''"
| "WQLOperationToString WQL_NOT = ''NOT''"
| "WQLOperationToString WQL_EQ = ''=''"
| "WQLOperationToString WQL_NE = ''<>''"
| "WQLOperationToString WQL_LT = ''<''"
| "WQLOperationToString WQL_LE = ''<=''"
| "WQLOperationToString WQL_GT = ''>''"
| "WQLOperationToString WQL_GE = ''>=''"
| "WQLOperationToString WQL_DO_NOTHING = ''**INTERNAL NOTHING OPERATOR**''"
| "WQLOperationToString WQL_ISA = ''ISA''"

section \<open>Operands\<close>

text \<open>The tagged union of \<^verbatim>\<open>WQLOperand\<close>: one constructor per value of \<^verbatim>\<open>WQLOperand::Type\<close>.\<close>

datatype 'r WQLOperand =
    NULL_VALUE
  | INTEGER_VALUE "64 word"
  | DOUBLE_VALUE 'r
  | BOOLEAN_VALUE bool
  | STRING_VALUE string
  | PROPERTY_NAME string

datatype WQLOperand_Type =
    T_NULL_VALUE | T_INTEGER_VALUE | T_DOUBLE_VALUE | T_BOOLEAN_VALUE | T_STRING_VALUE
  | T_PROPERTY_NAME

fun getType :: "'r WQLOperand \<Rightarrow> WQLOperand_Type" where
  "getType NULL_VALUE = T_NULL_VALUE"
| "getType (INTEGER_VALUE _) = T_INTEGER_VALUE"
| "getType (DOUBLE_VALUE _) = T_DOUBLE_VALUE"
| "getType (BOOLEAN_VALUE _) = T_BOOLEAN_VALUE"
| "getType (STRING_VALUE _) = T_STRING_VALUE"
| "getType (PROPERTY_NAME _) = T_PROPERTY_NAME"

fun getIntegerValue :: "'r WQLOperand \<Rightarrow> 64 word result" where
  "getIntegerValue (INTEGER_VALUE x) = Inr x"
| "getIntegerValue _ = Inl TypeMismatchException"

fun getDoubleValue :: "'r WQLOperand \<Rightarrow> 'r result" where
  "getDoubleValue (DOUBLE_VALUE x) = Inr x"
| "getDoubleValue _ = Inl TypeMismatchException"

fun getBooleanValue :: "'r WQLOperand \<Rightarrow> bool result" where
  "getBooleanValue (BOOLEAN_VALUE x) = Inr x"
| "getBooleanValue _ = Inl TypeMismatchException"

fun getStringValue :: "'r WQLOperand \<Rightarrow> string result" where
  "getStringValue (STRING_VALUE x) = Inr x"
| "getStringValue _ = Inl TypeMismatchException"

fun getPropertyName :: "'r WQLOperand \<Rightarrow> string result" where
  "getPropertyName (PROPERTY_NAME x) = Inr x"
| "getPropertyName _ = Inl TypeMismatchException"

section \<open>What comes from outside the repository\<close>

record 'r ext =
  r_eq :: "'r \<Rightarrow> 'r \<Rightarrow> bool"
  r_lt :: "'r \<Rightarrow> 'r \<Rightarrow> bool"
  r_le :: "'r \<Rightarrow> 'r \<Rightarrow> bool"
  r_of_int :: "64 word \<Rightarrow> 'r"
  s_lt :: "string \<Rightarrow> string \<Rightarrow> bool"
  s_le :: "string \<Rightarrow> string \<Rightarrow> bool"
  s_of_int :: "64 word \<Rightarrow> string"
  s_of_real :: "'r \<Rightarrow> string"
  s_of_bool :: "bool \<Rightarrow> string"

section \<open>Equality of operands\<close>

fun operand_eq :: "'r ext \<Rightarrow> 'r WQLOperand \<Rightarrow> 'r WQLOperand \<Rightarrow> bool" where
  "operand_eq X NULL_VALUE NULL_VALUE = True"
| "operand_eq X (INTEGER_VALUE x) (INTEGER_VALUE y) = (x = y)"
| "operand_eq X (DOUBLE_VALUE x) (DOUBLE_VALUE y) = r_eq X x y"
| "operand_eq X (BOOLEAN_VALUE x) (BOOLEAN_VALUE y) = (x = y)"
| "operand_eq X (STRING_VALUE x) (STRING_VALUE y) = (x = y)"
| "operand_eq X (PROPERTY_NAME x) (PROPERTY_NAME y) = (x = y)"
| "operand_eq X _ _ = False"

section \<open>Comparison of two values\<close>

text \<open>
  \<^verbatim>\<open>_Compare\<close> is a template over the two operand types. C++ converts both to a common type, so
  the model takes the equality, \<open><\<close> and \<open>\<le>\<close> of that type; \<open>x > y\<close> is \<open>y < x\<close>.
\<close>

fun Compare :: "('a \<Rightarrow> 'a \<Rightarrow> bool) \<Rightarrow> ('a \<Rightarrow> 'a \<Rightarrow> bool) \<Rightarrow> ('a \<Rightarrow> 'a \<Rightarrow> bool) \<Rightarrow>
    'a \<Rightarrow> 'a \<Rightarrow> WQLOperation \<Rightarrow> bool result" where
  "Compare eq lt le x y WQL_EQ = Inr (eq x y)"
| "Compare eq lt le x y WQL_NE = Inr (\<not> eq x y)"
| "Compare eq lt le x y WQL_LT = Inr (lt x y)"
| "Compare eq lt le x y WQL_LE = Inr (le x y)"
| "Compare eq lt le x y WQL_GT = Inr (lt y x)"
| "Compare eq lt le x y WQL_GE = Inr (le y x)"
| "Compare eq lt le x y _ = Inl AssertionException"

definition Compare_int :: "64 word \<Rightarrow> 64 word \<Rightarrow> WQLOperation \<Rightarrow> bool result" where
  "Compare_int = Compare (=) (\<lambda>x y. sint x < sint y) (\<lambda>x y. sint x \<le> sint y)"

definition Compare_bool :: "bool \<Rightarrow> bool \<Rightarrow> WQLOperation \<Rightarrow> bool result" where
  "Compare_bool = Compare (=) (<) (\<le>)"

definition Compare_real :: "'r ext \<Rightarrow> 'r \<Rightarrow> 'r \<Rightarrow> WQLOperation \<Rightarrow> bool result" where
  "Compare_real X = Compare (r_eq X) (r_lt X) (r_le X)"

definition Compare_str :: "'r ext \<Rightarrow> string \<Rightarrow> string \<Rightarrow> WQLOperation \<Rightarrow> bool result" where
  "Compare_str X = Compare (=) (s_lt X) (s_le X)"

text \<open>
  \<^verbatim>\<open>_EvaluateRHS\<close>, instantiated at \<^verbatim>\<open>Int64\<close>, \<^verbatim>\<open>Real64\<close> and \<^verbatim>\<open>bool\<close>, and its overload for
  \<^verbatim>\<open>String\<close>. A \<^verbatim>\<open>bool\<close> compared with an integer is promoted to 0 or 1, an integer compared with a
  double is converted to a double.
\<close>

fun EvaluateRHS_int :: "'r ext \<Rightarrow> 64 word \<Rightarrow> 'r WQLOperand \<Rightarrow> WQLOperation \<Rightarrow> bool result" where
  "EvaluateRHS_int X x NULL_VALUE op = Inr (op \<noteq> WQL_EQ)"
| "EvaluateRHS_int X x (INTEGER_VALUE y) op = Compare_int x y op"
| "EvaluateRHS_int X x (DOUBLE_VALUE y) op = Compare_real X (r_of_int X x) y op"
| "EvaluateRHS_int X x (BOOLEAN_VALUE y) op = Compare_int x (of_bool y) op"
| "EvaluateRHS_int X x (STRING_VALUE y) op = Compare_str X (s_of_int X x) y op"
| "EvaluateRHS_int X x (PROPERTY_NAME _) op = Inl AssertionException"

fun EvaluateRHS_real :: "'r ext \<Rightarrow> 'r \<Rightarrow> 'r WQLOperand \<Rightarrow> WQLOperation \<Rightarrow> bool result" where
  "EvaluateRHS_real X x NULL_VALUE op = Inr (op \<noteq> WQL_EQ)"
| "EvaluateRHS_real X x (INTEGER_VALUE y) op = Compare_real X x (r_of_int X y) op"
| "EvaluateRHS_real X x (DOUBLE_VALUE y) op = Compare_real X x y op"
| "EvaluateRHS_real X x (BOOLEAN_VALUE y) op = Compare_real X x (r_of_int X (of_bool y)) op"
| "EvaluateRHS_real X x (STRING_VALUE y) op = Compare_str X (s_of_real X x) y op"
| "EvaluateRHS_real X x (PROPERTY_NAME _) op = Inl AssertionException"

fun EvaluateRHS_bool :: "'r ext \<Rightarrow> bool \<Rightarrow> 'r WQLOperand \<Rightarrow> WQLOperation \<Rightarrow> bool result" where
  "EvaluateRHS_bool X x NULL_VALUE op = Inr (op \<noteq> WQL_EQ)"
| "EvaluateRHS_bool X x (INTEGER_VALUE y) op = Compare_int (of_bool x) y op"
| "EvaluateRHS_bool X x (DOUBLE_VALUE y) op = Compare_real X (r_of_int X (of_bool x)) y op"
| "EvaluateRHS_bool X x (BOOLEAN_VALUE y) op = Compare_bool x y op"
| "EvaluateRHS_bool X x (STRING_VALUE y) op = Compare_str X (s_of_bool X x) y op"
| "EvaluateRHS_bool X x (PROPERTY_NAME _) op = Inl AssertionException"

fun EvaluateRHS_str :: "'r ext \<Rightarrow> string \<Rightarrow> 'r WQLOperand \<Rightarrow> WQLOperation \<Rightarrow> bool result" where
  "EvaluateRHS_str X x NULL_VALUE op = Inr (op \<noteq> WQL_EQ)"
| "EvaluateRHS_str X x (INTEGER_VALUE y) op = Compare_str X x (s_of_int X y) op"
| "EvaluateRHS_str X x (DOUBLE_VALUE y) op = Compare_str X x (s_of_real X y) op"
| "EvaluateRHS_str X x (BOOLEAN_VALUE y) op = Compare_str X x (s_of_bool X y) op"
| "EvaluateRHS_str X x (STRING_VALUE y) op = Compare_str X x y op"
| "EvaluateRHS_str X x (PROPERTY_NAME _) op = Inl AssertionException"

text \<open>\<^verbatim>\<open>_Evaluate\<close> of \<^verbatim>\<open>OW_WQLCompile.cpp\<close>; \<open>\<noteq>\<close> on truth values is the C++ \<^verbatim>\<open>^\<close>.\<close>

fun Evaluate :: "'r ext \<Rightarrow> 'r WQLOperand \<Rightarrow> 'r WQLOperand \<Rightarrow> WQLOperation \<Rightarrow> bool result" where
  "Evaluate X NULL_VALUE rhs op = Inr ((op \<noteq> WQL_EQ) \<noteq> (getType rhs = T_NULL_VALUE))"
| "Evaluate X (INTEGER_VALUE x) rhs op = EvaluateRHS_int X x rhs op"
| "Evaluate X (DOUBLE_VALUE x) rhs op = EvaluateRHS_real X x rhs op"
| "Evaluate X (BOOLEAN_VALUE x) rhs op = EvaluateRHS_bool X x rhs op"
| "Evaluate X (STRING_VALUE x) rhs op = EvaluateRHS_str X x rhs op"
| "Evaluate X (PROPERTY_NAME _) rhs op = Inl AssertionException"

text \<open>\<^verbatim>\<open>term_el::negate\<close> on the operation, and the operand swap of \<^verbatim>\<open>_sortTableau\<close>.\<close>

fun negate_op :: "WQLOperation \<Rightarrow> WQLOperation" where
  "negate_op WQL_EQ = WQL_NE"
| "negate_op WQL_NE = WQL_EQ"
| "negate_op WQL_LT = WQL_GE"
| "negate_op WQL_LE = WQL_GT"
| "negate_op WQL_GT = WQL_LE"
| "negate_op WQL_GE = WQL_LT"
| "negate_op op = op"

fun turn_op :: "WQLOperation \<Rightarrow> WQLOperation" where
  "turn_op WQL_LT = WQL_GT"
| "turn_op WQL_GT = WQL_LT"
| "turn_op WQL_LE = WQL_GE"
| "turn_op WQL_GE = WQL_LE"
| "turn_op op = op"

section \<open>Laws of comparison\<close>

text \<open>
  \<open>ext_ok nz X\<close> states what is documented of the outside operations: on doubles that satisfy
  \<open>nz\<close> (neither NaN nor negative zero, so that \<open>==\<close> is identity) \<open><\<close> and \<open>\<le>\<close> are the two parts of
  a total order, integers convert to such doubles, and the string order is total.
\<close>

definition ext_ok :: "('r \<Rightarrow> bool) \<Rightarrow> 'r ext \<Rightarrow> bool" where
  "ext_ok nz X \<longleftrightarrow>
     (\<forall>x y. nz x \<longrightarrow> nz y \<longrightarrow> r_eq X x y = (x = y)) \<and>
     (\<forall>x y. nz x \<longrightarrow> nz y \<longrightarrow> r_le X x y = (\<not> r_lt X y x)) \<and>
     (\<forall>i. nz (r_of_int X i)) \<and>
     (\<forall>x y. s_le X x y = (\<not> s_lt X y x))"

fun operand_nz :: "('r \<Rightarrow> bool) \<Rightarrow> 'r WQLOperand \<Rightarrow> bool" where
  "operand_nz nz (DOUBLE_VALUE x) = nz x"
| "operand_nz nz _ = True"

definition comparison :: "WQLOperation \<Rightarrow> bool" where
  "comparison op \<longleftrightarrow> op \<in> {WQL_EQ, WQL_NE, WQL_LT, WQL_LE, WQL_GT, WQL_GE}"

definition is_value :: "'r WQLOperand \<Rightarrow> bool" where
  "is_value x \<longleftrightarrow> getType x \<noteq> T_PROPERTY_NAME"

lemma comparison_cases:
  "comparison op \<Longrightarrow> op = WQL_EQ \<or> op = WQL_NE \<or> op = WQL_LT \<or> op = WQL_LE \<or> op = WQL_GT \<or> op = WQL_GE"
  by (auto simp: comparison_def)

lemma comparison_negate [simp]: "comparison (negate_op op) = comparison op"
  by (cases op) (auto simp: comparison_def)

lemma comparison_turn [simp]: "comparison (turn_op op) = comparison op"
  by (cases op) (auto simp: comparison_def)

lemma negate_negate [simp]: "negate_op (negate_op op) = op"
  by (cases op) auto

lemma Compare_negate:
  "(\<And>a b. (a = x \<and> b = y) \<or> (a = y \<and> b = x) \<Longrightarrow> le a b = (\<not> lt b a)) \<Longrightarrow> comparison op \<Longrightarrow>
   \<exists>b. Compare eq lt le x y op = Inr b \<and> Compare eq lt le x y (negate_op op) = Inr (\<not> b)"
  by (cases op) (auto simp: comparison_def)

lemma Compare_turn:
  "eq x y = eq y x \<Longrightarrow> Compare eq lt le y x (turn_op op) = Compare eq lt le x y op"
  by (cases op) auto

lemma Compare_defined: "comparison op \<Longrightarrow> \<exists>b. Compare eq lt le x y op = Inr b"
  by (cases op) (auto simp: comparison_def)

lemmas Compare_defs = Compare_int_def Compare_bool_def Compare_real_def Compare_str_def

lemma Evaluate_defined:
  assumes "is_value x" "is_value y" "comparison op"
  shows "\<exists>b. Evaluate X x y op = Inr b"
  using assms by (cases x; cases y) (auto simp: is_value_def Compare_defs intro: Compare_defined)

lemma Evaluate_turn:
  assumes "ext_ok nz X" "operand_nz nz x" "operand_nz nz y" "is_value x" "is_value y"
  shows "Evaluate X y x (turn_op op) = Evaluate X x y op"
proof -
  have t: "turn_op op = WQL_EQ \<longleftrightarrow> op = WQL_EQ" for op by (cases op) auto
  show ?thesis
    using assms
    by (cases x; cases y) (auto simp: is_value_def Compare_defs ext_ok_def t intro!: Compare_turn)
qed

text \<open>
  \<^verbatim>\<open>negate\<close> complements a comparison unless it is an ordering of a null: every ordering of a null
  value with a value, and with itself, has the answer of \<open><>\<close>.
\<close>

definition negatable :: "WQLOperation \<Rightarrow> 'r WQLOperand \<Rightarrow> 'r WQLOperand \<Rightarrow> bool" where
  "negatable op x y \<longleftrightarrow>
     comparison op \<and> is_value x \<and> is_value y \<and>
     (op = WQL_EQ \<or> op = WQL_NE \<or> (getType x \<noteq> T_NULL_VALUE \<and> getType y \<noteq> T_NULL_VALUE))"

lemma Evaluate_negate:
  assumes "ext_ok nz X" "operand_nz nz x" "operand_nz nz y" "negatable op x y"
  shows "Evaluate X x y op = Inr b \<Longrightarrow> Evaluate X x y (negate_op op) = Inr (\<not> b)"
proof -
  assume e: "Evaluate X x y op = Inr b"
  have ex: "\<exists>b. Evaluate X x y op = Inr b \<and> Evaluate X x y (negate_op op) = Inr (\<not> b)"
    using assms
    by (cases x; cases y)
       (auto simp: negatable_def is_value_def Compare_defs ext_ok_def linorder_not_less intro!: Compare_negate)
  from ex e show ?thesis by auto
qed

end
