(* ===== verification/WQL_Statement.thy ===== *)
theory WQL_Statement
  imports WQL_Operand
begin

text \<open>
  \<^verbatim>\<open>WQLSelectStatement\<close> (\<^verbatim>\<open>src/src/common/OW_WQLSelectStatement.hpp\<close> and \<^verbatim>\<open>.cpp\<close>): the statement
  the parser fills, and the direct evaluation of its where clause on an operand stack.

  \<^verbatim>\<open>WQLPropertySource\<close> is an abstract class; a value of type \<open>'r property_source\<close> is one
  implementation of its two methods. \<^verbatim>\<open>getValue\<close> returns \<open>None\<close> where the C++ method returns
  \<^verbatim>\<open>false\<close>.
\<close>

section \<open>The statement\<close>

datatype 'r OperandOrOperation = OPERATION WQLOperation | OPERAND "'r WQLOperand"

record 'r WQLSelectStatement =
  stmt_className :: string
  selectPropertyNames :: "string list"
  wherePropertyNames :: "string list"
  operStack :: "'r OperandOrOperation list"

definition WQLSelectStatement_new :: "'r WQLSelectStatement" where
  "WQLSelectStatement_new =
     \<lparr>stmt_className = [], selectPropertyNames = [], wherePropertyNames = [], operStack = []\<rparr>"

text \<open>\<^verbatim>\<open>clear\<close> leaves \<^verbatim>\<open>_wherePropertyNames\<close> as it is.\<close>

definition stmt_clear :: "'r WQLSelectStatement \<Rightarrow> 'r WQLSelectStatement" where
  "stmt_clear s = s\<lparr>stmt_className := [], selectPropertyNames := [], operStack := []\<rparr>"

definition setClassName :: "string \<Rightarrow> 'r WQLSelectStatement \<Rightarrow> 'r WQLSelectStatement" where
  "setClassName n s = s\<lparr>stmt_className := n\<rparr>"

definition appendSelectPropertyName :: "string \<Rightarrow> 'r WQLSelectStatement \<Rightarrow> 'r WQLSelectStatement" where
  "appendSelectPropertyName x s = s\<lparr>selectPropertyNames := selectPropertyNames s @ [x]\<rparr>"

definition appendWherePropertyName :: "string \<Rightarrow> 'r WQLSelectStatement \<Rightarrow> bool \<times> 'r WQLSelectStatement" where
  "appendWherePropertyName x s =
     (if list_ex (\<lambda>n. n = x) (wherePropertyNames s) then (False, s)
      else (True, s\<lparr>wherePropertyNames := wherePropertyNames s @ [x]\<rparr>))"

definition appendOperation :: "WQLOperation \<Rightarrow> 'r WQLSelectStatement \<Rightarrow> 'r WQLSelectStatement" where
  "appendOperation x s = s\<lparr>operStack := operStack s @ [OPERATION x]\<rparr>"

definition appendOperand :: "'r WQLOperand \<Rightarrow> 'r WQLSelectStatement \<Rightarrow> 'r WQLSelectStatement" where
  "appendOperand x s = s\<lparr>operStack := operStack s @ [OPERAND x]\<rparr>"

definition hasWhereClause :: "'r WQLSelectStatement \<Rightarrow> bool" where
  "hasWhereClause s \<longleftrightarrow> operStack s \<noteq> []"

lemmas stmt_defs = WQLSelectStatement_new_def stmt_clear_def setClassName_def
  appendSelectPropertyName_def appendWherePropertyName_def appendOperation_def
  appendOperand_def hasWhereClause_def

section \<open>Evaluation of the where clause\<close>

record 'r property_source =
  src_getValue :: "string \<Rightarrow> 'r WQLOperand option result"
  src_evaluateISA :: "string \<Rightarrow> string \<Rightarrow> bool result"

definition stmt_ResolveProperty :: "'r property_source \<Rightarrow> 'r WQLOperand \<Rightarrow> 'r WQLOperand result" where
  "stmt_ResolveProperty src x =
     (case x of
        PROPERTY_NAME p \<Rightarrow>
          bind_r (src_getValue src p)
            (\<lambda>v. case v of None \<Rightarrow> Inl (NoSuchPropertyException p) | Some y \<Rightarrow> Inr y)
      | _ \<Rightarrow> Inr x)"

text \<open>\<^verbatim>\<open>_Evaluate\<close> of \<^verbatim>\<open>OW_WQLSelectStatement.cpp\<close>: both operands are read at the type of the left one.\<close>

fun stmt_Evaluate :: "'r ext \<Rightarrow> 'r WQLOperand \<Rightarrow> 'r WQLOperand \<Rightarrow> WQLOperation \<Rightarrow> bool result" where
  "stmt_Evaluate X NULL_VALUE rhs op = Inr ((op \<noteq> WQL_EQ) \<noteq> (getType rhs = T_NULL_VALUE))"
| "stmt_Evaluate X (INTEGER_VALUE x) rhs op = bind_r (getIntegerValue rhs) (\<lambda>y. Compare_int x y op)"
| "stmt_Evaluate X (DOUBLE_VALUE x) rhs op = bind_r (getDoubleValue rhs) (\<lambda>y. Compare_real X x y op)"
| "stmt_Evaluate X (BOOLEAN_VALUE x) rhs op = bind_r (getBooleanValue rhs) (\<lambda>y. Compare_bool x y op)"
| "stmt_Evaluate X (STRING_VALUE x) rhs op = bind_r (getStringValue rhs) (\<lambda>y. Compare_str X x y op)"
| "stmt_Evaluate X (PROPERTY_NAME _) rhs op = Inl AssertionException"

text \<open>
  The comparison and the ISA branch of the loop: \<open>lhs\<close> is the popped top of the stack and
  \<open>rhs\<close> the element below it.
\<close>

definition stmt_compare :: "'r ext \<Rightarrow> 'r property_source \<Rightarrow> WQLOperation \<Rightarrow>
    'r WQLOperand \<Rightarrow> 'r WQLOperand \<Rightarrow> bool result" where
  "stmt_compare X src op lhs rhs =
     bind_r (stmt_ResolveProperty src lhs) (\<lambda>l.
     bind_r (stmt_ResolveProperty src rhs) (\<lambda>r.
       if getType r \<noteq> getType l then Inl TypeMismatchException
       else stmt_Evaluate X l r op))"

definition stmt_isa :: "'r property_source \<Rightarrow> 'r WQLOperand \<Rightarrow> 'r WQLOperand \<Rightarrow> bool result" where
  "stmt_isa src lhs rhs =
     (if getType lhs \<noteq> T_PROPERTY_NAME then Inl TypeMismatchException
      else bind_r (case rhs of PROPERTY_NAME c \<Rightarrow> Inr c | STRING_VALUE c \<Rightarrow> Inr c
                   | _ \<Rightarrow> Inl TypeMismatchException) (\<lambda>className.
           bind_r (getPropertyName lhs) (\<lambda>p. src_evaluateISA src p className)))"

text \<open>One round of the loop. The stack is a list with its top first.\<close>

fun eval_item :: "'r ext \<Rightarrow> 'r property_source \<Rightarrow> 'r OperandOrOperation \<Rightarrow>
    'r WQLOperand list \<Rightarrow> 'r WQLOperand list result" where
  "eval_item X src (OPERAND x) stack = Inr (x # stack)"
| "eval_item X src (OPERATION WQL_OR) stack =
     (case stack of
        op1 # op2 # rest \<Rightarrow>
          bind_r (getBooleanValue op1) (\<lambda>b1. bind_r (getBooleanValue op2) (\<lambda>b2.
            Inr (BOOLEAN_VALUE (b1 \<or> b2) # rest)))
      | _ \<Rightarrow> Inl AssertionException)"
| "eval_item X src (OPERATION WQL_AND) stack =
     (case stack of
        op1 # op2 # rest \<Rightarrow>
          bind_r (getBooleanValue op1) (\<lambda>b1. bind_r (getBooleanValue op2) (\<lambda>b2.
            Inr (BOOLEAN_VALUE (b1 \<and> b2) # rest)))
      | _ \<Rightarrow> Inl AssertionException)"
| "eval_item X src (OPERATION WQL_NOT) stack =
     (case stack of
        op1 # rest \<Rightarrow> bind_r (getBooleanValue op1) (\<lambda>b1. Inr (BOOLEAN_VALUE (\<not> b1) # rest))
      | _ \<Rightarrow> Inl AssertionException)"
| "eval_item X src (OPERATION WQL_ISA) stack =
     (case stack of
        lhs # rhs # rest \<Rightarrow> bind_r (stmt_isa src lhs rhs) (\<lambda>b. Inr (BOOLEAN_VALUE b # rest))
      | _ \<Rightarrow> Inl AssertionException)"
| "eval_item X src (OPERATION WQL_DO_NOTHING) stack = Inl AssertionException"
| "eval_item X src (OPERATION op) stack =
     (case stack of
        lhs # rhs # rest \<Rightarrow> bind_r (stmt_compare X src op lhs rhs) (\<lambda>b. Inr (BOOLEAN_VALUE b # rest))
      | _ \<Rightarrow> Inl AssertionException)"

definition evaluateWhereClause :: "'r ext \<Rightarrow> 'r property_source \<Rightarrow> 'r WQLSelectStatement \<Rightarrow> bool result" where
  "evaluateWhereClause X src s =
     (if \<not> hasWhereClause s then Inr True
      else bind_r (fold_r (eval_item X src) (operStack s) []) (\<lambda>stack.
        case stack of [x] \<Rightarrow> getBooleanValue x | _ \<Rightarrow> Inl AssertionException))"

section \<open>The statement's fields under its operations\<close>

text \<open>The where clause never lists a property twice.\<close>

lemma appendWherePropertyName_fields [simp]:
  "operStack (snd (appendWherePropertyName x s)) = operStack s"
  "selectPropertyNames (snd (appendWherePropertyName x s)) = selectPropertyNames s"
  "stmt_className (snd (appendWherePropertyName x s)) = stmt_className s"
  by (simp_all add: appendWherePropertyName_def)

lemma appendWherePropertyName_distinct:
  "distinct (wherePropertyNames s) \<Longrightarrow> distinct (wherePropertyNames (snd (appendWherePropertyName x s)))"
  by (auto simp: appendWherePropertyName_def list_ex_iff)

lemma appendWherePropertyName_set [simp]:
  "set (wherePropertyNames (snd (appendWherePropertyName x s))) = insert x (set (wherePropertyNames s))"
  by (auto simp: appendWherePropertyName_def list_ex_iff)

section \<open>Expressions and their postfix form\<close>

text \<open>
  The where clauses that both evaluators give a meaning to: comparisons of two operands joined by
  AND, OR and NOT. \<open>postfix\<close> is the order in which the parser appends operands and operations;
  \<open>wsem tv e\<close> is the two-valued meaning of \<open>e\<close> when \<open>tv\<close> gives the answer of each comparison.
\<close>

datatype junct = Conj | Disj

fun junct_op :: "junct \<Rightarrow> WQLOperation" where
  "junct_op Conj = WQL_AND"
| "junct_op Disj = WQL_OR"

fun junct_sem :: "junct \<Rightarrow> bool \<Rightarrow> bool \<Rightarrow> bool" where
  "junct_sem Conj a b = (a \<and> b)"
| "junct_sem Disj a b = (a \<or> b)"

datatype 'r wexpr =
    Cmp WQLOperation "'r WQLOperand" "'r WQLOperand"
  | Join junct "'r wexpr" "'r wexpr"
  | Not "'r wexpr"

abbreviation And :: "'r wexpr \<Rightarrow> 'r wexpr \<Rightarrow> 'r wexpr" where
  "And \<equiv> Join Conj"

abbreviation Or :: "'r wexpr \<Rightarrow> 'r wexpr \<Rightarrow> 'r wexpr" where
  "Or \<equiv> Join Disj"

fun postfix :: "'r wexpr \<Rightarrow> 'r OperandOrOperation list" where
  "postfix (Cmp op l r) = [OPERAND l, OPERAND r, OPERATION op]"
| "postfix (Join j a b) = postfix a @ postfix b @ [OPERATION (junct_op j)]"
| "postfix (Not a) = postfix a @ [OPERATION WQL_NOT]"

fun wsem :: "(WQLOperation \<Rightarrow> 'r WQLOperand \<Rightarrow> 'r WQLOperand \<Rightarrow> bool) \<Rightarrow> 'r wexpr \<Rightarrow> bool" where
  "wsem tv (Cmp op l r) = tv op l r"
| "wsem tv (Join j a b) = junct_sem j (wsem tv a) (wsem tv b)"
| "wsem tv (Not a) = (\<not> wsem tv a)"

fun cmps :: "'r wexpr \<Rightarrow> (WQLOperation \<times> 'r WQLOperand \<times> 'r WQLOperand) set" where
  "cmps (Cmp op l r) = {(op, l, r)}"
| "cmps (Join j a b) = cmps a \<union> cmps b"
| "cmps (Not a) = cmps a"

lemma junct_op_cases [simp]: "junct_op j \<in> {WQL_AND, WQL_OR}" "junct_op j \<noteq> WQL_NOT"
  "junct_op j \<noteq> WQL_DO_NOTHING" "junct_op j \<noteq> WQL_ISA"
  by (cases j; simp)+

lemma postfix_nonempty [simp]: "postfix e \<noteq> []"
  by (cases e) auto

lemma wsem_cong: "(\<And>op l r. (op, l, r) \<in> cmps e \<Longrightarrow> tv op l r = tv' op l r) \<Longrightarrow> wsem tv e = wsem tv' e"
  by (induction e) auto

text \<open>
  What one comparison or ISA test computes in the loop of \<open>evaluateWhereClause\<close>, for the operands in
  the order in which they were appended.
\<close>

definition stmt_test :: "'r ext \<Rightarrow> 'r property_source \<Rightarrow> WQLOperation \<Rightarrow>
    'r WQLOperand \<Rightarrow> 'r WQLOperand \<Rightarrow> bool result" where
  "stmt_test X src op l r = (if op = WQL_ISA then stmt_isa src r l else stmt_compare X src op r l)"

definition test_op :: "WQLOperation \<Rightarrow> bool" where
  "test_op op \<longleftrightarrow> comparison op \<or> op = WQL_ISA"

lemma eval_item_test:
  "test_op op \<Longrightarrow> eval_item X src (OPERATION op) (r # l # rest) =
     bind_r (stmt_test X src op l r) (\<lambda>b. Inr (BOOLEAN_VALUE b # rest))"
  by (cases op) (auto simp: test_op_def comparison_def stmt_test_def)

lemma eval_postfix:
  assumes "\<forall>(op, l, r) \<in> cmps e. test_op op \<and> stmt_test X src op l r = Inr (tv op l r)"
  shows "fold_r (eval_item X src) (postfix e) stack = Inr (BOOLEAN_VALUE (wsem tv e) # stack)"
  using assms
proof (induction e arbitrary: stack)
  case (Cmp op l r)
  then have "test_op op" "stmt_test X src op l r = Inr (tv op l r)" by auto
  then show ?case by (simp add: eval_item_test)
next
  case (Join j a b)
  then show ?case by (cases j) (simp_all add: ball_Un conj_commute disj_commute)
qed simp

end
