(* ===== verification/WQL_Compile.thy ===== *)
theory WQL_Compile
  imports WQL_Statement
begin

text \<open>
  \<^verbatim>\<open>WQLCompile\<close> (\<^verbatim>\<open>src/src/common/OW_WQLCompile.hpp\<close> and \<^verbatim>\<open>.cpp\<close>): the compilation of a where
  clause to a tableau, a disjunction of rows that are conjunctions of comparisons, and the
  evaluation of the tableau. The code works in place on two arrays: the terminal heap holds the
  comparisons and the eval heap the AND, OR and NOT nodes, whose operands are indices into either.

  Only definitions stand here. The two printing functions are left out. Loops whose end depends
  on the shape of the heap are \<^theory_text>\<open>partial_function\<close>s: \<open>None\<close> is a loop that does not return.
\<close>

section \<open>Terminal and evaluation elements\<close>

record 'r term_el =
  t_mark :: bool
  t_op :: WQLOperation
  t_opn1 :: "'r WQLOperand"
  t_opn2 :: "'r WQLOperand"

text \<open>\<open>OPERAND_REF\<close> is \<^verbatim>\<open>WQLCompile::OPERAND\<close>.\<close>

datatype el_type = EVAL_HEAP | TERMINAL_HEAP | OPERAND_REF

record stack_el =
  se_opn :: int
  se_type :: el_type

record eval_el =
  e_mark :: bool
  e_op :: WQLOperation
  e_opn1 :: int
  e_type1 :: el_type
  e_opn2 :: int
  e_type2 :: el_type

definition mk_term :: "WQLOperation \<Rightarrow> 'r WQLOperand \<Rightarrow> 'r WQLOperand \<Rightarrow> 'r term_el" where
  "mk_term op l r = \<lparr>t_mark = False, t_op = op, t_opn1 = l, t_opn2 = r\<rparr>"

definition mk_stack :: "int \<Rightarrow> el_type \<Rightarrow> stack_el" where
  "mk_stack n t = \<lparr>se_opn = n, se_type = t\<rparr>"

definition mk_eval :: "WQLOperation \<Rightarrow> int \<Rightarrow> el_type \<Rightarrow> int \<Rightarrow> el_type \<Rightarrow> eval_el" where
  "mk_eval op n1 t1 n2 t2 =
     \<lparr>e_mark = False, e_op = op, e_opn1 = n1, e_type1 = t1, e_opn2 = n2, e_type2 = t2\<rparr>"

definition negate :: "'r term_el \<Rightarrow> 'r term_el" where
  "negate t = t\<lparr>t_op := negate_op (t_op t)\<rparr>"

definition term_eq :: "'r ext \<Rightarrow> 'r term_el \<Rightarrow> 'r term_el \<Rightarrow> bool" where
  "term_eq X x y \<longleftrightarrow> t_op x = t_op y \<and> operand_eq X (t_opn1 x) (t_opn1 y) \<and> operand_eq X (t_opn2 x) (t_opn2 y)"

definition getFirst :: "eval_el \<Rightarrow> stack_el" where
  "getFirst e = mk_stack (e_opn1 e) (e_type1 e)"

definition getSecond :: "eval_el \<Rightarrow> stack_el" where
  "getSecond e = mk_stack (e_opn2 e) (e_type2 e)"

definition setFirst :: "stack_el \<Rightarrow> eval_el \<Rightarrow> eval_el" where
  "setFirst s e = e\<lparr>e_opn1 := se_opn s, e_type1 := se_type s\<rparr>"

definition setSecond :: "stack_el \<Rightarrow> eval_el \<Rightarrow> eval_el" where
  "setSecond s e = e\<lparr>e_opn2 := se_opn s, e_type2 := se_type s\<rparr>"

definition assign_unary_to_first :: "eval_el \<Rightarrow> eval_el \<Rightarrow> eval_el" where
  "assign_unary_to_first a e = e\<lparr>e_opn1 := e_opn1 a, e_type1 := e_type1 a\<rparr>"

definition assign_unary_to_second :: "eval_el \<Rightarrow> eval_el \<Rightarrow> eval_el" where
  "assign_unary_to_second a e = e\<lparr>e_opn2 := e_opn1 a, e_type2 := e_type1 a\<rparr>"

definition order_el :: "eval_el \<Rightarrow> eval_el" where
  "order_el e =
     (if e_type1 e = EVAL_HEAP \<and> e_type2 e = EVAL_HEAP then
        (if e_opn2 e > e_opn1 e then e\<lparr>e_opn1 := e_opn2 e, e_opn2 := e_opn1 e\<rparr> else e)
      else if e_type1 e \<noteq> EVAL_HEAP \<and> e_type2 e = EVAL_HEAP then
        (if e_opn2 e > e_opn1 e
         then e\<lparr>e_opn1 := e_opn2 e, e_opn2 := e_opn1 e, e_type1 := e_type2 e, e_type2 := e_type1 e\<rparr>
         else e)
      else e)"

section \<open>The compiler's state\<close>

record 'r WQLCompile =
  tableau :: "'r term_el list list"
  terminal_heap :: "'r term_el list"
  eval_heap :: "eval_el list"

definition WQLCompile_new :: "'r WQLCompile" where
  "WQLCompile_new = \<lparr>tableau = [], terminal_heap = [], eval_heap = []\<rparr>"

section \<open>\<open>_buildEvalHeap\<close>\<close>

text \<open>
  One round of the loop over the statement's operand stack, at position \<open>i\<close>. The state is the
  compiler and the stack of references, top first.
\<close>

definition build_unary :: "WQLOperation \<Rightarrow> stack_el list \<Rightarrow> 'r WQLCompile \<Rightarrow>
    (stack_el list \<times> 'r WQLCompile) result" where
  "build_unary op stack c =
     (case stack of
        op1 # rest \<Rightarrow>
          (let h = eval_heap c @ [mk_eval op (se_opn op1) (se_type op1) (-1) TERMINAL_HEAP]
           in Inr (mk_stack (int (length h) - 1) EVAL_HEAP # rest, c\<lparr>eval_heap := h\<rparr>))
      | _ \<Rightarrow> Inl AssertionException)"

definition operand_at :: "'r OperandOrOperation list \<Rightarrow> int \<Rightarrow> 'r WQLOperand result" where
  "operand_at ops n =
     bind_r (arr_get ops n) (\<lambda>x. case x of OPERAND v \<Rightarrow> Inr v | OPERATION _ \<Rightarrow> Inl AssertionException)"

definition build_binary :: "'r OperandOrOperation list \<Rightarrow> WQLOperation \<Rightarrow> stack_el list \<Rightarrow>
    'r WQLCompile \<Rightarrow> (stack_el list \<times> 'r WQLCompile) result" where
  "build_binary ops op stack c =
     (case stack of
        op2 # op1 # rest \<Rightarrow>
          if se_type op1 = OPERAND_REF \<and> se_type op2 = OPERAND_REF then
            bind_r (operand_at ops (se_opn op1)) (\<lambda>lhs.
            bind_r (operand_at ops (se_opn op2)) (\<lambda>rhs.
              let t = terminal_heap c @ [mk_term op lhs rhs]
              in Inr (mk_stack (int (length t) - 1) TERMINAL_HEAP # rest, c\<lparr>terminal_heap := t\<rparr>)))
          else
            (let h = eval_heap c @ [mk_eval op (se_opn op1) (se_type op1) (se_opn op2) (se_type op2)]
             in Inr (mk_stack (int (length h) - 1) EVAL_HEAP # rest, c\<lparr>eval_heap := h\<rparr>))
      | _ \<Rightarrow> Inl AssertionException)"

fun build_item :: "'r OperandOrOperation list \<Rightarrow> nat \<times> 'r OperandOrOperation \<Rightarrow>
    stack_el list \<times> 'r WQLCompile \<Rightarrow> (stack_el list \<times> 'r WQLCompile) result" where
  "build_item ops (i, OPERAND _) (stack, c) = Inr (mk_stack (int i) OPERAND_REF # stack, c)"
| "build_item ops (i, OPERATION WQL_NOT) (stack, c) = build_unary WQL_NOT stack c"
| "build_item ops (i, OPERATION WQL_DO_NOTHING) (stack, c) = Inl AssertionException"
| "build_item ops (i, OPERATION op) (stack, c) = build_binary ops op stack c"

definition buildEvalHeap :: "'r WQLSelectStatement \<Rightarrow> 'r WQLCompile \<Rightarrow> 'r WQLCompile result" where
  "buildEvalHeap wqs c =
     bind_r (fold_r (build_item (operStack wqs)) (enumerate 0 (operStack wqs)) ([], c))
       (\<lambda>(stack, c'). if length stack = 1 then Inr c' else Inl AssertionException)"

section \<open>\<open>_pushNOTDown\<close>\<close>

text \<open>
  The inner loop that replaces, in every element above \<open>i\<close>, a reference to \<open>i\<close> by the operand of
  the NOT at \<open>i\<close>.
\<close>

definition subst_unary_at :: "nat \<Rightarrow> nat \<Rightarrow> eval_el list \<Rightarrow> eval_el list" where
  "subst_unary_at i j h =
     (let h1 = (if e_type1 (h ! j) = EVAL_HEAP \<and> e_opn1 (h ! j) = int i
                then h[j := assign_unary_to_first (h ! i) (h ! j)] else h)
      in if e_type2 (h1 ! j) = EVAL_HEAP \<and> e_opn2 (h1 ! j) = int i
         then h1[j := assign_unary_to_second (h1 ! i) (h1 ! j)] else h1)"

definition subst_unary :: "nat \<Rightarrow> eval_el list \<Rightarrow> eval_el list" where
  "subst_unary i h = fold (subst_unary_at i) (rev [i + 1..<length h]) h"

definition flip_and_or :: "WQLOperation \<Rightarrow> WQLOperation" where
  "flip_and_or op = (if op = WQL_OR then WQL_AND else if op = WQL_AND then WQL_OR else op)"

text \<open>Pushing a pending NOT to one operand: the terminal is negated, or the element's mark flipped.\<close>

definition push_operand :: "int \<Rightarrow> el_type \<Rightarrow> 'r WQLCompile \<Rightarrow> 'r WQLCompile result" where
  "push_operand j ty c =
     (case ty of
        TERMINAL_HEAP \<Rightarrow> bind_r (arr_upd (terminal_heap c) j negate) (\<lambda>t. Inr (c\<lparr>terminal_heap := t\<rparr>))
      | EVAL_HEAP \<Rightarrow> bind_r (arr_upd (eval_heap c) j (\<lambda>e. e\<lparr>e_mark := \<not> e_mark e\<rparr>))
                      (\<lambda>h. Inr (c\<lparr>eval_heap := h\<rparr>))
      | OPERAND_REF \<Rightarrow> Inr c)"

definition push_not :: "nat \<Rightarrow> eval_el list \<Rightarrow> eval_el list \<times> bool" where
  "push_not i h =
     (if e_op (h ! i) = WQL_NOT then
        (let h1 = subst_unary i (h[i := (h ! i)\<lparr>e_op := WQL_DO_NOTHING\<rparr>])
         in if e_mark (h1 ! i) then (h1[i := (h1 ! i)\<lparr>e_mark := False\<rparr>], False) else (h1, True))
      else (h, False))"

definition push_mark :: "nat \<Rightarrow> eval_el list \<times> bool \<Rightarrow> eval_el list \<times> bool" where
  "push_mark i = (\<lambda>(h, found).
     if e_mark (h ! i)
     then (h[i := (h ! i)\<lparr>e_mark := False, e_op := flip_and_or (e_op (h ! i))\<rparr>], True)
     else (h, found))"

definition push_at :: "nat \<Rightarrow> 'r WQLCompile \<Rightarrow> 'r WQLCompile result" where
  "push_at i c =
     (let (h, found) = push_mark i (push_not i ((eval_heap c)[i := order_el (eval_heap c ! i)]));
          c1 = c\<lparr>eval_heap := h\<rparr>
      in if found then
           bind_r (push_operand (e_opn1 (h ! i)) (e_type1 (h ! i)) c1) (\<lambda>c2.
             if e_opn2 (h ! i) \<ge> 0 then push_operand (e_opn2 (h ! i)) (e_type2 (h ! i)) c2 else Inr c2)
         else Inr c1)"

definition pushNOTDown :: "'r WQLCompile \<Rightarrow> 'r WQLCompile result" where
  "pushNOTDown c = fold_r push_at (rev [0..<length (eval_heap c)]) c"

section \<open>\<open>_factoring\<close>\<close>

definition is_or_at :: "eval_el list \<Rightarrow> el_type \<Rightarrow> int \<Rightarrow> bool result" where
  "is_or_at h ty n =
     (if ty = EVAL_HEAP then bind_r (arr_get h n) (\<lambda>e. Inr (e_op e = WQL_OR)) else Inr False)"

text \<open>The search for an OR under the AND at \<open>i\<close>: its index and the other operand.\<close>

definition factor_find :: "nat \<Rightarrow> eval_el list \<Rightarrow> (int \<times> stack_el) option result" where
  "factor_find i h =
     (let e = h ! i in
      if e_op e = WQL_AND then
        bind_r (is_or_at h (e_type1 e) (e_opn1 e)) (\<lambda>b1.
          if b1 then Inr (Some (e_opn1 e, getSecond e))
          else bind_r (is_or_at h (e_type2 e) (e_opn2 e)) (\<lambda>b2.
            if b2 then Inr (Some (e_opn2 e, getFirst e)) else Inr None))
      else Inr None)"

definition shift2 :: "nat \<Rightarrow> eval_el \<Rightarrow> eval_el" where
  "shift2 i e =
     (let e1 = (if e_type1 e = EVAL_HEAP \<and> e_opn1 e \<ge> int i then e\<lparr>e_opn1 := e_opn1 e + 2\<rparr> else e)
      in if e_type2 e1 = EVAL_HEAP \<and> e_opn2 e1 \<ge> int i then e1\<lparr>e_opn2 := e_opn2 e1 + 2\<rparr> else e1)"

text \<open>
  The two insertions before position \<open>i + 1\<close> (the first one appends when \<open>i\<close> is the last position)
  and the adjustment of the references above them.
\<close>

definition factor_insert :: "nat \<Rightarrow> eval_el list \<Rightarrow> eval_el list" where
  "factor_insert i h =
     (let evl = mk_eval WQL_OR (int i + 1) EVAL_HEAP (int i) EVAL_HEAP;
          h1 = (if int i < int (length h) - 1 then arr_insert h (i + 1) evl else h @ [evl]);
          h2 = arr_insert h1 (i + 1) evl
      in fold (\<lambda>j h. h[j := shift2 i (h ! j)]) (rev [i + 3..<length h2]) h2)"

definition factor_and :: "stack_el \<Rightarrow> stack_el \<Rightarrow> eval_el \<Rightarrow> eval_el" where
  "factor_and s x e = order_el (setSecond x (setFirst s (e\<lparr>e_mark := False, e_op := WQL_AND\<rparr>)))"

definition factor_at :: "nat \<Rightarrow> eval_el list \<Rightarrow> eval_el list option result" where
  "factor_at i h =
     bind_r (factor_find i h) (\<lambda>found.
       case found of
         None \<Rightarrow> Inr None
       | Some (index, s) \<Rightarrow>
           (let h3 = factor_insert i h in
            bind_r (arr_get h3 index) (\<lambda>o1.
              let h4 = h3[i + 1 := factor_and s (getFirst o1) (h3 ! (i + 1))] in
              bind_r (arr_get h4 index) (\<lambda>o2.
                Inr (Some (h4[i := factor_and s (getSecond o2) (h4 ! i)]))))))"

partial_function (option) factoring_loop :: "nat \<Rightarrow> nat \<Rightarrow> eval_el list \<Rightarrow> eval_el list result option" where
  "factoring_loop i n h =
     (if i < n then
        (case factor_at i h of
           Inl e \<Rightarrow> Some (Inl e)
         | Inr r \<Rightarrow> (case r of None \<Rightarrow> factoring_loop (i + 1) n h
                     | Some h' \<Rightarrow> factoring_loop i (n + 2) h'))
      else Some (Inr h))"

declare factoring_loop.simps [code]

definition factoring :: "'r WQLCompile \<Rightarrow> 'r WQLCompile result option" where
  "factoring c =
     bind_o (factoring_loop 0 (length (eval_heap c)) (eval_heap c)) (\<lambda>h. Some (Inr (c\<lparr>eval_heap := h\<rparr>)))"

section \<open>\<open>_gather\<close>\<close>

text \<open>Removal of the \<open>WQL_DO_NOTHING\<close> elements at the end of the heap.\<close>

fun strip_do_nothing :: "eval_el list \<Rightarrow> eval_el list" where
  "strip_do_nothing h =
     (if h = [] then [] else if e_op (last h) = WQL_DO_NOTHING then strip_do_nothing (butlast h) else h)"

declare strip_do_nothing.simps [simp del]

partial_function (option) gather_loop :: "bool \<Rightarrow> nat \<Rightarrow> stack_el list \<Rightarrow> eval_el list \<Rightarrow>
    (stack_el list \<times> eval_el list) result option" where
  "gather_loop or_flag i stk h =
     (if i < length stk then
        (if se_opn (stk ! i) < 0 \<or> se_type (stk ! i) \<noteq> EVAL_HEAP then gather_loop or_flag (i + 1) stk h
         else (case arr_get h (se_opn (stk ! i)) of
             Inl x \<Rightarrow> Some (Inl x)
           | Inr e \<Rightarrow>
               (if (e_op e \<noteq> WQL_OR \<and> or_flag) \<or> (e_op e \<noteq> WQL_AND \<and> \<not> or_flag)
                then gather_loop or_flag (i + 1) stk h
                else gather_loop or_flag i
                       (arr_insert (stk[i := getSecond e]) i (getFirst e))
                       (if or_flag then h[nat (se_opn (stk ! i)) := e\<lparr>e_op := WQL_DO_NOTHING\<rparr>] else h))))
      else Some (Inr (stk, h)))"

declare gather_loop.simps [code]

definition gather :: "stack_el list \<Rightarrow> stack_el \<Rightarrow> bool \<Rightarrow> eval_el list \<Rightarrow>
    (stack_el list \<times> eval_el list) result option" where
  "gather stk sel or_flag h =
     (let h' = strip_do_nothing h in
      if h' = [] then Some (Inr (stk, h'))
      else if or_flag then gather_loop or_flag 0 (stk @ [mk_stack (int (length h') - 1) EVAL_HEAP]) h'
      else if se_type sel \<noteq> EVAL_HEAP then Some (Inr (stk, h'))
      else gather_loop or_flag 0 (stk @ [sel]) h')"

definition gatherDisj :: "stack_el list \<Rightarrow> eval_el list \<Rightarrow> (stack_el list \<times> eval_el list) result option" where
  "gatherDisj stk h = gather stk (mk_stack 0 TERMINAL_HEAP) True h"

definition gatherConj :: "stack_el list \<Rightarrow> stack_el \<Rightarrow> eval_el list \<Rightarrow>
    (stack_el list \<times> eval_el list) result option" where
  "gatherConj stk sel h = gather stk sel False h"

section \<open>\<open>_sortTableau\<close>\<close>

definition is_prop :: "'r WQLOperand \<Rightarrow> bool" where
  "is_prop x \<longleftrightarrow> getType x = T_PROPERTY_NAME"

definition turn_term :: "'r term_el \<Rightarrow> 'r term_el" where
  "turn_term t =
     (if is_prop (t_opn2 t) \<and> \<not> is_prop (t_opn1 t)
      then t\<lparr>t_opn1 := t_opn2 t, t_opn2 := t_opn1 t, t_op := turn_op (t_op t)\<rparr> else t)"

definition row_key :: "'r term_el \<Rightarrow> string" where
  "row_key t = (case t_opn1 t of PROPERTY_NAME p \<Rightarrow> if is_prop (t_opn2 t) then [] else p | _ \<Rightarrow> [])"

definition swap_terms :: "nat \<Rightarrow> nat \<Rightarrow> 'r term_el list \<Rightarrow> 'r term_el list" where
  "swap_terms j k tr =
     (let a = tr ! j; b = tr ! k;
          tr1 = tr[j := a\<lparr>t_op := t_op b, t_opn1 := t_opn1 b, t_opn2 := t_opn2 b\<rparr>]
      in tr1[k := (tr1 ! k)\<lparr>t_op := t_op a, t_opn1 := t_opn1 a, t_opn2 := t_opn2 a\<rparr>])"

text \<open>\<open>key1\<close> is read once per outer round and not after a swap.\<close>

definition sort_row :: "'r ext \<Rightarrow> 'r term_el list \<Rightarrow> 'r term_el list" where
  "sort_row X tr =
     fold (\<lambda>j tr. let key1 = row_key (tr ! j) in
             fold (\<lambda>k tr. if s_lt X (row_key (tr ! k)) key1 then swap_terms j k tr else tr) [j..<length tr] tr)
       [0..<length tr] tr"

text \<open>\<^verbatim>\<open>std::unique\<close> followed by the erasure of the tail: each run keeps its first element.\<close>

fun unique_run :: "('a \<Rightarrow> 'a \<Rightarrow> bool) \<Rightarrow> 'a list \<Rightarrow> 'a list" where
  "unique_run eq (x # y # xs) = (if eq x y then unique_run eq (x # xs) else x # unique_run eq (y # xs))"
| "unique_run eq xs = xs"

definition sort_tableau_row :: "'r ext \<Rightarrow> 'r term_el list \<Rightarrow> 'r term_el list" where
  "sort_tableau_row X tr = unique_run (term_eq X) (sort_row X (map turn_term tr))"

definition sortTableau :: "'r ext \<Rightarrow> 'r WQLCompile \<Rightarrow> 'r WQLCompile" where
  "sortTableau X c = c\<lparr>tableau := map (sort_tableau_row X) (tableau c)\<rparr>"

section \<open>\<open>compile\<close>\<close>

definition row_of :: "'r term_el list \<Rightarrow> stack_el list \<Rightarrow> 'r term_el list result" where
  "row_of terms cj = map_r (\<lambda>s. arr_get terms (se_opn s)) cj"

text \<open>The loop over the disjuncts; \<open>_gatherConj\<close> may shorten the eval heap as it goes.\<close>

fun compile_rows :: "'r term_el list \<Rightarrow> stack_el list \<Rightarrow> eval_el list \<Rightarrow> 'r term_el list list result option" where
  "compile_rows terms [] h = Some (Inr [])"
| "compile_rows terms (d # ds) h =
     (if se_type d = EVAL_HEAP then
        bind_o (gatherConj [] d h) (\<lambda>(cj, h').
        bind_o (Some (row_of terms cj)) (\<lambda>tr.
        bind_o (compile_rows terms ds h') (\<lambda>trs. Some (Inr (tr # trs)))))
      else
        bind_o (Some (row_of terms [d])) (\<lambda>tr.
        bind_o (compile_rows terms ds h) (\<lambda>trs. Some (Inr (tr # trs)))))"

definition compile_where :: "'r ext \<Rightarrow> 'r WQLSelectStatement \<Rightarrow> 'r WQLCompile \<Rightarrow> 'r WQLCompile result option" where
  "compile_where X wqs c =
     (if \<not> hasWhereClause wqs then Some (Inr c)
      else
        bind_o (Some (buildEvalHeap wqs (c\<lparr>tableau := []\<rparr>))) (\<lambda>c1.
        bind_o (Some (pushNOTDown c1)) (\<lambda>c2.
        bind_o (factoring c2) (\<lambda>c3.
        bind_o (gatherDisj [] (eval_heap c3)) (\<lambda>(disj, h).
          let disj' = (if disj = [] \<and> terminal_heap c3 \<noteq> [] then [mk_stack 0 TERMINAL_HEAP] else disj) in
          bind_o (compile_rows (terminal_heap c3) disj' h) (\<lambda>rows.
            Some (Inr (sortTableau X (c3\<lparr>tableau := rows, eval_heap := []\<rparr>)))))))))"

section \<open>\<open>evaluate\<close>\<close>

definition ResolveProperty :: "'r property_source \<Rightarrow> 'r WQLOperand \<Rightarrow> 'r WQLOperand result" where
  "ResolveProperty src x =
     (case x of
        PROPERTY_NAME p \<Rightarrow>
          bind_r (src_getValue src p)
            (\<lambda>v. case v of None \<Rightarrow> Inl (NoSuchPropertyException ''No such property'') | Some y \<Rightarrow> Inr y)
      | _ \<Rightarrow> Inr x)"

definition eval_term :: "'r ext \<Rightarrow> 'r property_source \<Rightarrow> 'r term_el \<Rightarrow> bool result" where
  "eval_term X src t =
     (if t_op t = WQL_ISA then
        bind_r (getPropertyName (t_opn1 t)) (\<lambda>propertyName.
        bind_r (case t_opn2 t of PROPERTY_NAME c \<Rightarrow> Inr c | _ \<Rightarrow> getStringValue (t_opn2 t)) (\<lambda>className.
          src_evaluateISA src propertyName className))
      else
        bind_r (ResolveProperty src (t_opn1 t)) (\<lambda>lhs.
        bind_r (ResolveProperty src (t_opn2 t)) (\<lambda>rhs.
          Evaluate X lhs rhs (t_op t))))"

fun eval_row :: "'r ext \<Rightarrow> 'r property_source \<Rightarrow> 'r term_el list \<Rightarrow> bool result" where
  "eval_row X src [] = Inr True"
| "eval_row X src (t # ts) = bind_r (eval_term X src t) (\<lambda>b. if b then eval_row X src ts else Inr False)"

fun eval_rows :: "'r ext \<Rightarrow> 'r property_source \<Rightarrow> 'r term_el list list \<Rightarrow> bool result" where
  "eval_rows X src [] = Inr False"
| "eval_rows X src (tr # trs) = bind_r (eval_row X src tr) (\<lambda>b. if b then Inr True else eval_rows X src trs)"

definition evaluate :: "'r ext \<Rightarrow> 'r property_source \<Rightarrow> 'r WQLCompile \<Rightarrow> bool result" where
  "evaluate X src c = (if tableau c = [] then Inr True else eval_rows X src (tableau c))"

end
