(* ===== verification/WQL_Heap.thy ===== *)
theory WQL_Heap
  imports WQL_Compile
begin

text \<open>
  The meaning of the two heaps of \<^verbatim>\<open>WQLCompile\<close>, and what \<^verbatim>\<open>_buildEvalHeap\<close> makes of the postfix form of an
  expression.

  The value of a heap is computed from its first element to its last: an element has the value of
  its operation on the values of the elements and terminals it refers to. The value of the heap is
  that of its root, the element \<^verbatim>\<open>_gather\<close> starts from. The passes of the compiler are described by a
  valuation \<open>f\<close> of the elements that satisfies \<open>sat\<close>, which is the computed one on the active elements,
  and by how they change it.
\<close>

section \<open>References and valuations\<close>

type_synonym ref = "int \<times> el_type"

definition ref1 :: "eval_el \<Rightarrow> ref" where
  "ref1 e = (e_opn1 e, e_type1 e)"

definition ref2 :: "eval_el \<Rightarrow> ref" where
  "ref2 e = (e_opn2 e, e_type2 e)"

definition unary :: "eval_el \<Rightarrow> bool" where
  "unary e \<longleftrightarrow> e_op e = WQL_NOT \<or> e_op e = WQL_DO_NOTHING"

definition refs :: "eval_el \<Rightarrow> ref list" where
  "refs e = (if unary e then [ref1 e] else [ref1 e, ref2 e])"

definition refv :: "('r term_el \<Rightarrow> bool) \<Rightarrow> 'r term_el list \<Rightarrow> (nat \<Rightarrow> bool) \<Rightarrow> ref \<Rightarrow> bool" where
  "refv tv ts f r = (case snd r of EVAL_HEAP \<Rightarrow> f (nat (fst r)) | TERMINAL_HEAP \<Rightarrow> tv (ts ! nat (fst r))
     | OPERAND_REF \<Rightarrow> False)"

fun app_op :: "WQLOperation \<Rightarrow> bool \<Rightarrow> bool \<Rightarrow> bool" where
  "app_op WQL_AND a b = (a \<and> b)"
| "app_op WQL_OR a b = (a \<or> b)"
| "app_op WQL_NOT a b = (\<not> a)"
| "app_op WQL_DO_NOTHING a b = a"
| "app_op _ a b = False"

definition node_val :: "('r term_el \<Rightarrow> bool) \<Rightarrow> 'r term_el list \<Rightarrow> (nat \<Rightarrow> bool) \<Rightarrow> eval_el \<Rightarrow> bool" where
  "node_val tv ts f e = (e_mark e \<noteq> app_op (e_op e) (refv tv ts f (ref1 e)) (refv tv ts f (ref2 e)))"

text \<open>
  A pass that disconnects an element sets its operation to \<^verbatim>\<open>WQL_DO_NOTHING\<close>; only the others, the
  active ones, have a meaning.
\<close>

definition active :: "eval_el \<Rightarrow> bool" where
  "active e \<longleftrightarrow> e_op e \<noteq> WQL_DO_NOTHING"

definition sat :: "('r term_el \<Rightarrow> bool) \<Rightarrow> 'r term_el list \<Rightarrow> eval_el list \<Rightarrow> (nat \<Rightarrow> bool) \<Rightarrow> bool" where
  "sat tv ts h f \<longleftrightarrow> (\<forall>k<length h. active (h ! k) \<longrightarrow> f k = node_val tv ts f (h ! k))"

text \<open>References point below their element or into the terminal heap.\<close>

definition ok_ref :: "nat \<Rightarrow> nat \<Rightarrow> ref \<Rightarrow> bool" where
  "ok_ref m k r \<longleftrightarrow>
     0 \<le> fst r \<and> ((snd r = EVAL_HEAP \<and> fst r < int k) \<or> (snd r = TERMINAL_HEAP \<and> fst r < int m))"

definition live :: "eval_el list \<Rightarrow> ref \<Rightarrow> bool" where
  "live h r \<longleftrightarrow> (snd r = EVAL_HEAP \<longrightarrow> active (h ! nat (fst r)))"

text \<open>\<open>tree m h R\<close>: the active elements are AND, OR and NOT nodes and form a tree under the root reference \<open>R\<close>.\<close>

definition tree_node :: "nat \<Rightarrow> eval_el list \<Rightarrow> ref \<Rightarrow> nat \<Rightarrow> eval_el \<Rightarrow> bool" where
  "tree_node m h R k e \<longleftrightarrow>
     e_op e \<in> {WQL_AND, WQL_OR, WQL_NOT} \<and> (e_op e = WQL_NOT \<longrightarrow> ref2 e = (-1, TERMINAL_HEAP)) \<and>
     distinct (refs e) \<and> R \<notin> set (refs e) \<and> (\<forall>r\<in>set (refs e). ok_ref m k r \<and> live h r)"

definition tree :: "nat \<Rightarrow> eval_el list \<Rightarrow> ref \<Rightarrow> bool" where
  "tree m h R \<longleftrightarrow>
     ok_ref m (length h) R \<and> live h R \<and>
     (\<forall>k<length h. active (h ! k) \<longrightarrow> tree_node m h R k (h ! k)) \<and>
     (\<forall>j<length h. \<forall>k<length h. j \<noteq> k \<longrightarrow> active (h ! j) \<longrightarrow> active (h ! k) \<longrightarrow>
        set (refs (h ! j)) \<inter> set (refs (h ! k)) = {})"

text \<open>
  \<open>negs Q ts h G\<close>: the elements in \<open>G\<close> are the ones a NOT may reach, NOT nodes and marked nodes are
  among them, and the terminals below them satisfy \<open>Q\<close>.
\<close>

definition neg_ref :: "('r term_el \<Rightarrow> bool) \<Rightarrow> 'r term_el list \<Rightarrow> nat set \<Rightarrow> ref \<Rightarrow> bool" where
  "neg_ref Q ts G r \<longleftrightarrow>
     (snd r = EVAL_HEAP \<longrightarrow> nat (fst r) \<in> G) \<and> (snd r = TERMINAL_HEAP \<longrightarrow> Q (ts ! nat (fst r)))"

definition negs :: "('r term_el \<Rightarrow> bool) \<Rightarrow> 'r term_el list \<Rightarrow> eval_el list \<Rightarrow> nat set \<Rightarrow> bool" where
  "negs Q ts h G \<longleftrightarrow>
     (\<forall>k<length h. active (h ! k) \<longrightarrow>
        (e_mark (h ! k) \<or> e_op (h ! k) = WQL_NOT \<longrightarrow> k \<in> G) \<and>
        (k \<in> G \<longrightarrow> (\<forall>r\<in>set (refs (h ! k)). neg_ref Q ts G r)))"

lemma ok_ref_eval: "ok_ref m k r \<Longrightarrow> snd r = EVAL_HEAP \<Longrightarrow> nat (fst r) < k \<and> r = (int (nat (fst r)), EVAL_HEAP)"
  by (cases r) (auto simp: ok_ref_def)

lemma ok_ref_term: "ok_ref m k r \<Longrightarrow> snd r \<noteq> EVAL_HEAP \<Longrightarrow> nat (fst r) < m \<and> r = (int (nat (fst r)), TERMINAL_HEAP)"
  by (cases r) (auto simp: ok_ref_def)

lemma refv_eval [simp]: "refv tv ts f (int k, EVAL_HEAP) = f k"
  by (simp add: refv_def)

lemma refv_term [simp]: "refv tv ts f (int k, TERMINAL_HEAP) = tv (ts ! k)"
  by (simp add: refv_def)

lemma refv_cong:
  "ok_ref m k r \<Longrightarrow> (\<And>j. j < k \<Longrightarrow> f j = g j) \<Longrightarrow> refv tv ts f r = refv tv ts g r"
  by (cases r) (auto simp: ok_ref_def refv_def)

section \<open>The value of a heap\<close>

text \<open>
  \<open>vs\<close> are the values of the elements below the one that is computed. An element a pass has
  disconnected has no value, and neither has a reference to it or to an element that does not exist.
\<close>

definition ref_value :: "('r term_el \<Rightarrow> bool) \<Rightarrow> 'r term_el list \<Rightarrow> bool option list \<Rightarrow> ref \<Rightarrow> bool option" where
  "ref_value tv ts vs r =
     (if fst r < 0 then None else
      (case snd r of
         EVAL_HEAP \<Rightarrow> if nat (fst r) < length vs then vs ! nat (fst r) else None
       | TERMINAL_HEAP \<Rightarrow> if nat (fst r) < length ts then Some (tv (ts ! nat (fst r))) else None
       | OPERAND_REF \<Rightarrow> None))"

definition el_value :: "('r term_el \<Rightarrow> bool) \<Rightarrow> 'r term_el list \<Rightarrow> bool option list \<Rightarrow> eval_el \<Rightarrow> bool option" where
  "el_value tv ts vs e =
     (if e_op e = WQL_NOT then map_option (\<lambda>a. e_mark e \<noteq> (\<not> a)) (ref_value tv ts vs (ref1 e))
      else if e_op e = WQL_AND \<or> e_op e = WQL_OR then
        (case (ref_value tv ts vs (ref1 e), ref_value tv ts vs (ref2 e)) of
           (Some a, Some b) \<Rightarrow> Some (e_mark e \<noteq> (if e_op e = WQL_AND then a \<and> b else a \<or> b))
         | _ \<Rightarrow> None)
      else None)"

definition heap_values :: "('r term_el \<Rightarrow> bool) \<Rightarrow> 'r term_el list \<Rightarrow> eval_el list \<Rightarrow> bool option list" where
  "heap_values tv ts h = foldl (\<lambda>vs e. vs @ [el_value tv ts vs e]) [] h"

text \<open>The root: the last element that is not disconnected, or the first terminal when there is none.\<close>

definition heap_root :: "eval_el list \<Rightarrow> ref" where
  "heap_root h =
     (let h' = strip_do_nothing h in
      if h' = [] then (0, TERMINAL_HEAP) else (int (length h') - 1, EVAL_HEAP))"

definition heap_value :: "('r term_el \<Rightarrow> bool) \<Rightarrow> 'r term_el list \<Rightarrow> eval_el list \<Rightarrow> bool option" where
  "heap_value tv ts h = ref_value tv ts (heap_values tv ts h) (heap_root h)"

lemma heap_values_simps [simp]:
  "heap_values tv ts [] = []"
  "heap_values tv ts (h @ [e]) = heap_values tv ts h @ [el_value tv ts (heap_values tv ts h) e]"
  by (simp_all add: heap_values_def)

lemma length_heap_values [simp]: "length (heap_values tv ts h) = length h"
  by (induction h rule: rev_induct) simp_all

text \<open>On elements whose references have values, a valuation is the computed one.\<close>

lemma ref_value_sat:
  assumes "ok_ref (length ts) k r" "live h r" "k \<le> length vs"
    and "\<And>j. j < k \<Longrightarrow> active (h ! j) \<Longrightarrow> vs ! j = Some (f j)"
  shows "ref_value tv ts vs r = Some (refv tv ts f r)"
  using assms by (cases "snd r") (auto simp: ok_ref_def live_def ref_value_def refv_def)

lemma el_value_sat:
  assumes "e_op e \<in> {WQL_AND, WQL_OR, WQL_NOT}" "\<And>r. r \<in> set (refs e) \<Longrightarrow> ref_value tv ts vs r = Some (refv tv ts f r)"
  shows "el_value tv ts vs e = Some (node_val tv ts f e)"
  using assms by (auto simp: el_value_def node_val_def refs_def unary_def)

lemma heap_values_sat:
  assumes "\<And>k. k < length h \<Longrightarrow> active (h ! k) \<Longrightarrow> e_op (h ! k) \<in> {WQL_AND, WQL_OR, WQL_NOT} \<and>
      (\<forall>r\<in>set (refs (h ! k)). ok_ref (length ts) k r \<and> live h r)"
    and "sat tv ts h f" "n \<le> length h" "k < n" "active (h ! k)"
  shows "heap_values tv ts (take n h) ! k = Some (f k)"
  using assms(3-5)
proof (induction n arbitrary: k)
  case (Suc n)
  let ?vs = "heap_values tv ts (take n h)"
  have n: "n < length h" "take (Suc n) h = take n h @ [h ! n]"
    using Suc.prems(1) by (simp_all add: take_Suc_conv_app_nth)
  show ?case
  proof (cases "k = n")
    case True
    have "ref_value tv ts ?vs r = Some (refv tv ts f r)" if "r \<in> set (refs (h ! n))" for r
      using assms(1)[OF n(1)] that Suc.prems True n(1) Suc.IH
      by (intro ref_value_sat[of ts n r h]) auto
    then have "el_value tv ts ?vs (h ! n) = Some (node_val tv ts f (h ! n))"
      using assms(1)[OF n(1)] Suc.prems(3) True by (intro el_value_sat) auto
    then show ?thesis using True n assms(2) Suc.prems(3) by (simp add: nth_append sat_def)
  next
    case False
    then show ?thesis using Suc n by (simp add: nth_append)
  qed
qed simp

section \<open>The layout of an expression\<close>

fun esize :: "'r wexpr \<Rightarrow> nat" where
  "esize (Cmp op l r) = 0"
| "esize (Join j a b) = esize a + esize b + 1"
| "esize (Not a) = esize a + 1"

fun tnodes :: "'r wexpr \<Rightarrow> 'r term_el list" where
  "tnodes (Cmp op l r) = [mk_term op l r]"
| "tnodes (Join j a b) = tnodes a @ tnodes b"
| "tnodes (Not a) = tnodes a"

abbreviation tsize :: "'r wexpr \<Rightarrow> nat" where
  "tsize e \<equiv> length (tnodes e)"

fun eref :: "nat \<Rightarrow> nat \<Rightarrow> 'r wexpr \<Rightarrow> ref" where
  "eref a b (Cmp op l r) = (int b, TERMINAL_HEAP)"
| "eref a b e = (int (a + esize e) - 1, EVAL_HEAP)"

definition mk_node :: "WQLOperation \<Rightarrow> ref \<Rightarrow> ref \<Rightarrow> eval_el" where
  "mk_node op x y = mk_eval op (fst x) (snd x) (fst y) (snd y)"

abbreviation nil_ref :: ref where
  "nil_ref \<equiv> (-1, TERMINAL_HEAP)"

text \<open>\<open>enodes a b e\<close>: the eval elements of \<open>e\<close> when \<open>a\<close> elements and \<open>b\<close> terminals precede them.\<close>

fun enodes :: "nat \<Rightarrow> nat \<Rightarrow> 'r wexpr \<Rightarrow> eval_el list" where
  "enodes a b (Cmp op l r) = []"
| "enodes a b (Join j x y) = enodes a b x @ enodes (a + esize x) (b + tsize x) y @
     [mk_node (junct_op j) (eref a b x) (eref (a + esize x) (b + tsize x) y)]"
| "enodes a b (Not x) = enodes a b x @ [mk_node WQL_NOT (eref a b x) nil_ref]"

lemma length_enodes [simp]: "length (enodes a b e) = esize e"
  by (induction e arbitrary: a b) auto

lemma tnodes_nonempty [simp]: "tnodes e \<noteq> []"
  by (induction e) auto

lemma mk_node_sel [simp]:
  "e_mark (mk_node op x y) = False" "e_op (mk_node op x y) = op"
  "ref1 (mk_node op x y) = x" "ref2 (mk_node op x y) = y"
  by (simp_all add: mk_node_def mk_eval_def ref1_def ref2_def)

lemma refs_mk_node [simp]:
  "refs (mk_node op x y) = (if op = WQL_NOT \<or> op = WQL_DO_NOTHING then [x] else [x, y])"
  by (simp add: refs_def unary_def)

definition stk_of :: "ref \<Rightarrow> stack_el" where
  "stk_of r = mk_stack (fst r) (snd r)"

lemma stk_of_sel [simp]: "se_opn (stk_of r) = fst r" "se_type (stk_of r) = snd r"
  by (simp_all add: stk_of_def mk_stack_def)

lemma eref_type [simp]: "snd (eref a b e) \<noteq> OPERAND_REF"
  by (cases e) auto

text \<open>The state in which building \<open>e\<close> leaves the stack and the heaps.\<close>

definition built :: "stack_el list \<Rightarrow> 'r WQLCompile \<Rightarrow> 'r wexpr \<Rightarrow> stack_el list \<times> 'r WQLCompile" where
  "built stack c e =
     (stk_of (eref (length (eval_heap c)) (length (terminal_heap c)) e) # stack,
      c\<lparr>eval_heap := eval_heap c @ enodes (length (eval_heap c)) (length (terminal_heap c)) e,
        terminal_heap := terminal_heap c @ tnodes e\<rparr>)"

lemma build_binary_node:
  "build_item ops (i, OPERATION (junct_op j)) (stk_of (eref a2 b2 y) # stk_of (eref a1 b1 x) # stack, c) =
    Inr (mk_stack (int (length (eval_heap c))) EVAL_HEAP # stack,
         c\<lparr>eval_heap := eval_heap c @ [mk_node (junct_op j) (eref a1 b1 x) (eref a2 b2 y)]\<rparr>)"
  by (cases j) (auto simp: build_binary_def mk_node_def)

lemma build_unary_node:
  "build_item ops (i, OPERATION WQL_NOT) (stk_of (eref a b x) # stack, c) =
    Inr (mk_stack (int (length (eval_heap c))) EVAL_HEAP # stack,
         c\<lparr>eval_heap := eval_heap c @ [mk_node WQL_NOT (eref a b x) nil_ref]\<rparr>)"
  by (simp add: build_unary_def mk_node_def)

lemma build_postfix:
  assumes "\<forall>(op, l, r) \<in> cmps e. test_op op" and "ops = pre @ postfix e @ post"
  shows "fold_r (build_item ops) (enumerate (length pre) (postfix e)) (stack, c) = Inr (built stack c e)"
  using assms
proof (induction e arbitrary: pre post stack c)
  case (Cmp op l r)
  have a: "operand_at ops (int (length pre)) = Inr l" "operand_at ops (int (Suc (length pre))) = Inr r"
    unfolding Cmp(2) by (simp_all del: of_nat_Suc add: operand_at_def nth_append)
  from Cmp(1) a show ?case
    by (cases op)
       (auto simp: test_op_def comparison_def build_binary_def built_def mk_stack_def stk_of_def add.commute)
next
  case (Join j x y)
  have 1: "fold_r (build_item ops) (enumerate (length pre) (postfix x)) (s, d) = Inr (built s d x)" for s d
    using Join.prems by (intro Join.IH(1)) auto
  have 2: "fold_r (build_item ops) (enumerate (length (pre @ postfix x)) (postfix y)) (s, d) = Inr (built s d y)" for s d
    using Join.prems by (intro Join.IH(2)) auto
  show ?case
    by (simp add: enumerate_append_eq 1 2[simplified] built_def build_binary_node del: build_item.simps)
       (simp add: stk_of_def mk_stack_def)
next
  case (Not x)
  have 1: "fold_r (build_item ops) (enumerate (length pre) (postfix x)) (s, d) = Inr (built s d x)" for s d
    using Not.prems by (intro Not.IH) auto
  show ?case
    by (simp add: enumerate_append_eq 1 built_def build_unary_node del: build_item.simps)
       (simp add: stk_of_def mk_stack_def)
qed

lemma buildEvalHeap_postfix:
  assumes "\<forall>(op, l, r) \<in> cmps e. test_op op" and "operStack wqs = postfix e"
  shows "buildEvalHeap wqs c =
     Inr (c\<lparr>eval_heap := eval_heap c @ enodes (length (eval_heap c)) (length (terminal_heap c)) e,
           terminal_heap := terminal_heap c @ tnodes e\<rparr>)"
  using build_postfix[of e "operStack wqs" "[]" "[]"] assms by (simp add: buildEvalHeap_def built_def)

section \<open>Facts about the layout\<close>

text \<open>References of the elements of \<open>e\<close> stay inside the range that \<open>e\<close> occupies.\<close>

definition in_range :: "nat \<Rightarrow> nat \<Rightarrow> nat \<Rightarrow> nat \<Rightarrow> ref \<Rightarrow> bool" where
  "in_range a a' b b' r \<longleftrightarrow>
     (snd r = EVAL_HEAP \<and> int a \<le> fst r \<and> fst r < int a') \<or> (snd r = TERMINAL_HEAP \<and> int b \<le> fst r \<and> fst r < int b')"

lemma in_range_mono:
  "in_range a a' b b' r \<Longrightarrow> c \<le> a \<Longrightarrow> a' \<le> c' \<Longrightarrow> d \<le> b \<Longrightarrow> b' \<le> d' \<Longrightarrow> in_range c c' d d' r"
  by (auto simp: in_range_def)

lemma in_range_disjoint: "in_range a a' b b' r \<Longrightarrow> in_range c c' d d' r \<Longrightarrow> a' \<le> c \<Longrightarrow> b' \<le> d \<Longrightarrow> False"
  by (auto simp: in_range_def)

lemma eref_in_range: "in_range a (a + esize e) b (b + tsize e) (eref a b e)"
  by (cases e) (auto simp: in_range_def)

lemma enodes_ops: "x \<in> set (enodes a b e) \<Longrightarrow> e_op x \<in> {WQL_AND, WQL_OR, WQL_NOT} \<and> \<not> e_mark x"
  by (induction e arbitrary: a b) (auto, metis junct_op_cases(1) insert_iff singletonD)

lemma enodes_unary: "x \<in> set (enodes a b e) \<Longrightarrow> unary x \<Longrightarrow> ref2 x = nil_ref"
  by (induction e arbitrary: a b) (auto simp: unary_def)

lemma nth_enodes_Join:
  "k < esize (Join j x y) \<Longrightarrow> enodes a b (Join j x y) ! k =
     (if k < esize x then enodes a b x ! k
      else if k < esize x + esize y then enodes (a + esize x) (b + tsize x) y ! (k - esize x)
      else mk_node (junct_op j) (eref a b x) (eref (a + esize x) (b + tsize x) y))"
  by (auto simp: nth_append less_Suc_eq)

lemma nth_enodes_Not:
  "k < esize (Not x) \<Longrightarrow> enodes a b (Not x) ! k =
     (if k < esize x then enodes a b x ! k else mk_node WQL_NOT (eref a b x) nil_ref)"
  by (auto simp: nth_append less_Suc_eq)

lemma enodes_refs_range:
  "k < esize e \<Longrightarrow> r \<in> set (refs (enodes a b e ! k)) \<Longrightarrow> in_range a (a + k) b (b + tsize e) r"
proof (induction e arbitrary: a b k)
  case (Join j x y)
  note [simp del] = enodes.simps
  consider "k < esize x" | "esize x \<le> k" "k < esize x + esize y" | "k = esize x + esize y"
    using Join.prems(1) by force
  then show ?case
  proof cases
    case 1
    then have "in_range a (a + k) b (b + tsize x) r" using Join by (auto simp: nth_enodes_Join)
    then show ?thesis by (rule in_range_mono) auto
  next
    case 2
    then have "in_range (a + esize x) (a + esize x + (k - esize x)) (b + tsize x) (b + tsize x + tsize y) r"
      using Join.prems by (intro Join.IH(2)) (auto simp: nth_enodes_Join)
    then show ?thesis by (rule in_range_mono) (use 2 in auto)
  next
    case 3
    then have "r = eref a b x \<or> r = eref (a + esize x) (b + tsize x) y"
      using Join.prems by (auto simp: nth_enodes_Join)
    then show ?thesis
      using eref_in_range[of a x b] eref_in_range[of "a + esize x" y "b + tsize x"] 3
      by (auto elim!: in_range_mono)
  qed
next
  case (Not x)
  then show ?case
    using eref_in_range[of a x b]
    by (cases "k < esize x") (auto simp: nth_enodes_Not simp del: enodes.simps elim: in_range_mono)
qed auto

text \<open>No element or terminal is referenced twice, and the expression's own reference is not used inside it.\<close>

definition all_refs :: "eval_el list \<Rightarrow> ref list" where
  "all_refs h = concat (map refs h)"

lemma all_refs_simps [simp]: "all_refs [] = []" "all_refs (h @ h') = all_refs h @ all_refs h'"
  "all_refs [e] = refs e"
  by (simp_all add: all_refs_def)

lemma all_refs_range: "r \<in> set (all_refs (enodes a b e)) \<Longrightarrow> in_range a (a + esize e) b (b + tsize e) r"
proof -
  assume "r \<in> set (all_refs (enodes a b e))"
  then obtain k where "k < esize e" "r \<in> set (refs (enodes a b e ! k))"
    by (auto simp: all_refs_def in_set_conv_nth[of _ "enodes a b e"])
  then show ?thesis by (intro in_range_mono[OF enodes_refs_range]) auto
qed

lemma eref_not_inside: "eref a b e \<notin> set (all_refs (enodes a b e))"
proof
  assume "eref a b e \<in> set (all_refs (enodes a b e))"
  then obtain k where k: "k < esize e" "eref a b e \<in> set (refs (enodes a b e ! k))"
    by (auto simp: all_refs_def in_set_conv_nth[of _ "enodes a b e"])
  from enodes_refs_range[OF this] k(1) show False
    by (cases e) (auto simp: in_range_def)
qed

lemma distinct_all_refs: "distinct (all_refs (enodes a b e))"
proof (induction e arbitrary: a b)
  case (Join j x y)
  let ?x = "eref a b x" and ?y = "eref (a + esize x) (b + tsize x) y"
  let ?X = "enodes a b x" and ?Y = "enodes (a + esize x) (b + tsize x) y"
  have rx: "in_range a (a + esize x) b (b + tsize x) r" if "r = ?x \<or> r \<in> set (all_refs ?X)" for r
    using that eref_in_range all_refs_range by blast
  have ry: "in_range (a + esize x) (a + esize x + esize y) (b + tsize x) (b + tsize x + tsize y) r"
    if "r = ?y \<or> r \<in> set (all_refs ?Y)" for r
    using that eref_in_range all_refs_range by blast
  have ne: "r \<noteq> s" if "r = ?x \<or> r \<in> set (all_refs ?X)" "s = ?y \<or> s \<in> set (all_refs ?Y)" for r s
    using rx[OF that(1)] ry[OF that(2)] by (auto dest: in_range_disjoint)
  then have "set (all_refs ?X) \<inter> set (all_refs ?Y) = {}" "?x \<noteq> ?y" "?x \<notin> set (all_refs ?Y)" "?y \<notin> set (all_refs ?X)"
    by blast+
  then show ?case
    using Join.IH eref_not_inside[of a b x] eref_not_inside[of "a + esize x" "b + tsize x" y]
    by (cases j) simp_all
next
  case (Not x)
  then show ?case using eref_not_inside[of a b x] by auto
qed simp

lemma distinct_refs_apart:
  assumes "distinct (all_refs h)" "j < length h" "k < length h"
  shows "distinct (refs (h ! k))" and "j \<noteq> k \<Longrightarrow> set (refs (h ! j)) \<inter> set (refs (h ! k)) = {}"
proof -
  have split: "all_refs h = all_refs (take l h) @ refs (h ! l) @ all_refs (drop (Suc l) h)" if "l < length h" for l
    using arg_cong[OF id_take_nth_drop[OF that], of all_refs] by (simp add: all_refs_def)
  show "distinct (refs (h ! k))"
    using assms(1) split[OF assms(3)] by simp
  have *: "set (refs (h ! i)) \<inter> set (refs (h ! l)) = {}" if "i < l" "l < length h" for i l
  proof -
    have "h ! i \<in> set (take l h)" using that by (auto simp: in_set_conv_nth)
    then have "set (refs (h ! i)) \<subseteq> set (all_refs (take l h))" by (auto simp: all_refs_def)
    then show ?thesis using assms(1) split[OF that(2)] by auto
  qed
  show "set (refs (h ! j)) \<inter> set (refs (h ! k)) = {}" if "j \<noteq> k"
    using *[of j k] *[of k j] assms(2,3) that by (cases "j < k") auto
qed

lemma enodes_tree: "tree (tsize e) (enodes 0 0 e) (eref 0 0 e)"
proof -
  let ?h = "enodes 0 0 e"
  have act: "active (?h ! k)" if "k < esize e" for k
    using enodes_ops[OF nth_mem, of k 0 0 e] that by (auto simp: active_def)
  have ok: "ok_ref (tsize e) k r \<and> live ?h r" if "in_range 0 k 0 (tsize e) r" "k \<le> esize e" for k r
    using that act[of "nat (fst r)"] by (auto simp: in_range_def ok_ref_def live_def)
  have "tree_node (tsize e) ?h (eref 0 0 e) k (?h ! k)" if k: "k < esize e" for k
  proof -
    have m: "?h ! k \<in> set ?h" using k by simp
    have "\<forall>r\<in>set (refs (?h ! k)). ok_ref (tsize e) k r \<and> live ?h r"
      using ok[of k] k by (auto dest: enodes_refs_range)
    moreover have "eref 0 0 e \<notin> set (refs (?h ! k))"
      using eref_not_inside[of 0 0 e] m by (auto simp: all_refs_def)
    ultimately show ?thesis
      using enodes_ops[OF m] enodes_unary[OF m] distinct_refs_apart(1)[OF distinct_all_refs, of _ 0 0 e k] k
      by (auto simp: tree_node_def unary_def)
  qed
  moreover have "in_range 0 (esize e) 0 (tsize e) (eref 0 0 e)"
    using eref_in_range[of 0 e 0] by simp
  ultimately show ?thesis
    using ok[of "esize e"] distinct_refs_apart(2)[OF distinct_all_refs, of _ 0 0 e] by (simp add: tree_def)
qed

text \<open>Every heap whose references point downwards has a valuation.\<close>

lemma node_val_refs:
  assumes "e_op e \<in> {WQL_AND, WQL_OR, WQL_NOT}"
    and "\<And>r. r \<in> set (refs e) \<Longrightarrow> refv tv ts f r = refv tv ts' g r"
  shows "node_val tv ts f e = node_val tv ts' g e"
  using assms(1)
proof (elim insertE emptyE)
  assume "e_op e = WQL_NOT"
  then show ?thesis using assms(2)[of "ref1 e"] by (simp add: node_val_def refs_def unary_def)
qed (use assms(2)[of "ref1 e"] assms(2)[of "ref2 e"] in \<open>simp_all add: node_val_def refs_def unary_def\<close>)

lemma node_val_cong:
  assumes "\<forall>r\<in>set (refs e). ok_ref m k r" "\<And>j. j < k \<Longrightarrow> f j = g j"
    "e_op e \<in> {WQL_AND, WQL_OR, WQL_NOT}"
  shows "node_val tv ts f e = node_val tv ts g e"
  using assms refv_cong[of m k _ f g tv ts] by (intro node_val_refs) auto

lemma sat_exists:
  assumes "\<forall>k<length h. active (h ! k) \<longrightarrow> tree_node m h' R k (h ! k)"
  shows "\<exists>f. sat tv ts h f"
  using assms
proof (induction h rule: rev_induct)
  case Nil
  show ?case by (simp add: sat_def)
next
  case (snoc e h)
  have "tree_node m h' R k (h ! k)" if "k < length h" "active (h ! k)" for k
    using snoc.prems[rule_format, of k] that by (simp add: nth_append)
  with snoc.IH obtain f where f: "sat tv ts h f" by blast
  define g where "g = f(length h := node_val tv ts f e)"
  have "g k = node_val tv ts g ((h @ [e]) ! k)" if k: "k < length (h @ [e])" "active ((h @ [e]) ! k)" for k
  proof -
    have n: "tree_node m h' R k ((h @ [e]) ! k)"
      using snoc.prems k by blast
    have "node_val tv ts f ((h @ [e]) ! k) = node_val tv ts g ((h @ [e]) ! k)"
    proof (rule node_val_cong)
      show "\<forall>r\<in>set (refs ((h @ [e]) ! k)). ok_ref m k r" "e_op ((h @ [e]) ! k) \<in> {WQL_AND, WQL_OR, WQL_NOT}"
        using n by (simp_all add: tree_node_def)
    qed (use k in \<open>simp add: g_def\<close>)
    moreover have "g k = node_val tv ts f ((h @ [e]) ! k)"
      using f k by (cases "k = length h") (simp_all add: sat_def g_def nth_append)
    ultimately show ?thesis by simp
  qed
  then show ?case unfolding sat_def by blast
qed

text \<open>A valuation of the built heap gives the root the value of the expression.\<close>

lemma enodes_value:
  assumes "\<forall>k<esize e. f (a + k) = node_val tv ts f (enodes a b e ! k)"
    and "\<forall>t<tsize e. ts ! (b + t) = tnodes e ! t"
  shows "refv tv ts f (eref a b e) = wsem (\<lambda>op l r. tv (mk_term op l r)) e"
  using assms
proof (induction e arbitrary: a b)
  case (Cmp op l r)
  then show ?case by simp
next
  case (Join j x y)
  note [simp del] = enodes.simps
  have "refv tv ts f (eref a b x) = wsem (\<lambda>op l r. tv (mk_term op l r)) x"
    using Join.prems by (intro Join.IH(1)) (auto simp: nth_enodes_Join nth_append)
  moreover have "refv tv ts f (eref (a + esize x) (b + tsize x) y) = wsem (\<lambda>op l r. tv (mk_term op l r)) y"
  proof (intro Join.IH(2) allI impI)
    fix k assume "k < esize y"
    then show "f (a + esize x + k) = node_val tv ts f (enodes (a + esize x) (b + tsize x) y ! k)"
      using Join.prems(1)[rule_format, of "esize x + k"] by (simp add: nth_enodes_Join add.assoc)
  next
    fix t assume "t < tsize y"
    then show "ts ! (b + tsize x + t) = tnodes y ! t"
      using Join.prems(2)[rule_format, of "tsize x + t"] by (simp add: nth_append add.assoc)
  qed
  ultimately show ?case
    using Join.prems(1)[rule_format, of "esize x + esize y"]
    by (cases j) (simp_all add: nth_enodes_Join node_val_def refv_def[of tv ts f "(_, EVAL_HEAP)"] nat_add_distrib)
next
  case (Not x)
  note [simp del] = enodes.simps
  have "refv tv ts f (eref a b x) = wsem (\<lambda>op l r. tv (mk_term op l r)) x"
    using Not.prems by (intro Not.IH) (auto simp: nth_enodes_Not)
  then show ?case
    using Not.prems(1)[rule_format, of "esize x"]
    by (simp add: nth_enodes_Not node_val_def refv_def[of tv ts f "(_, EVAL_HEAP)"] nat_add_distrib)
qed

text \<open>The terminals a NOT reaches, \<open>u\<close> telling that the expression itself stands under one.\<close>

fun neg_ok :: "('r term_el \<Rightarrow> bool) \<Rightarrow> bool \<Rightarrow> 'r wexpr \<Rightarrow> bool" where
  "neg_ok Q u (Cmp op l r) = (u \<longrightarrow> Q (mk_term op l r))"
| "neg_ok Q u (Join j x y) = (neg_ok Q u x \<and> neg_ok Q u y)"
| "neg_ok Q u (Not x) = neg_ok Q True x"

fun under_not :: "bool \<Rightarrow> nat \<Rightarrow> 'r wexpr \<Rightarrow> nat set" where
  "under_not u a (Cmp op l r) = {}"
| "under_not u a (Join j x y) =
     under_not u a x \<union> under_not u (a + esize x) y \<union> (if u then {a + esize x + esize y} else {})"
| "under_not u a (Not x) = under_not True a x \<union> {a + esize x}"

lemma under_not_range: "k \<in> under_not u a e \<Longrightarrow> a \<le> k \<and> k < a + esize e"
proof (induction e arbitrary: u a)
  case (Join j x y)
  then show ?case by (fastforce split: if_splits)
next
  case (Not x)
  then show ?case by fastforce
qed simp

lemma enodes_neg_root:
  assumes "neg_ok Q True e" "\<forall>t<tsize e. ts ! (b + t) = tnodes e ! t"
  shows "neg_ref Q ts (under_not True a e) (eref a b e)"
  using assms by (cases e) (auto simp: neg_ref_def nat_add_distrib)

lemma neg_ref_mono: "neg_ref Q ts G r \<Longrightarrow> G \<subseteq> G' \<Longrightarrow> neg_ref Q ts G' r"
  by (auto simp: neg_ref_def)

lemma enodes_negs:
  assumes "neg_ok Q u e" "\<forall>t<tsize e. ts ! (b + t) = tnodes e ! t" "k < esize e"
  shows "(e_op (enodes a b e ! k) = WQL_NOT \<longrightarrow> a + k \<in> under_not u a e) \<and>
         (a + k \<in> under_not u a e \<longrightarrow> (\<forall>r\<in>set (refs (enodes a b e ! k)). neg_ref Q ts (under_not u a e) r))"
  using assms
proof (induction e arbitrary: a b u k)
  case (Join j x y)
  note [simp del] = enodes.simps
  have tx: "\<forall>t<tsize x. ts ! (b + t) = tnodes x ! t" using Join.prems by (auto simp: nth_append)
  have ty: "\<forall>t<tsize y. ts ! (b + tsize x + t) = tnodes y ! t"
  proof (intro allI impI)
    fix t assume "t < tsize y"
    then show "ts ! (b + tsize x + t) = tnodes y ! t"
      using Join.prems(2)[rule_format, of "tsize x + t"] by (simp add: nth_append add.assoc)
  qed
  consider "k < esize x" | i where "k = esize x + i" "i < esize y" | "k = esize x + esize y"
    using Join.prems(3) by (metis add_less_cancel_left esize.simps(2) le_Suc_ex less_Suc_eq not_less Suc_eq_plus1)
  then show ?case
  proof cases
    case 1
    then have "a + k \<notin> under_not u (a + esize x) y" "k \<noteq> esize x + esize y"
      using under_not_range[of _ u "a + esize x" y] by fastforce+
    with 1 show ?thesis using Join.IH(1)[of u b k a] Join.prems(1) tx
      by (auto simp: nth_enodes_Join elim!: neg_ref_mono split: if_splits)
  next
    case 2
    then have "a + (esize x + i) \<notin> under_not u a x"
      using under_not_range[of _ u a x] by fastforce
    with 2 show ?thesis using Join.IH(2)[of u "b + tsize x" i "a + esize x"] Join.prems(1) ty
      by (auto simp: nth_enodes_Join add.assoc elim!: neg_ref_mono split: if_splits)
  next
    case 3
    have "a + (esize x + esize y) \<notin> under_not u a x \<union> under_not u (a + esize x) y"
      using under_not_range[of _ u a x] under_not_range[of _ u "a + esize x" y] by fastforce
    then show ?thesis
      using 3 Join.prems(1) enodes_neg_root[OF _ tx, of Q a] enodes_neg_root[OF _ ty, of Q "a + esize x"]
      by (cases j) (auto simp: nth_enodes_Join add.assoc elim!: neg_ref_mono split: if_splits)
  qed
next
  case (Not x)
  note [simp del] = enodes.simps
  from Not.prems(3) consider "k < esize x" | "k = esize x" by (auto simp: less_Suc_eq)
  then show ?case
  proof cases
    case 1
    then show ?thesis using Not.IH[of True b k a] Not.prems
      by (auto simp: nth_enodes_Not elim!: neg_ref_mono)
  next
    case 2
    then show ?thesis using enodes_neg_root[of Q x ts b a] Not.prems
      by (auto simp: nth_enodes_Not elim!: neg_ref_mono)
  qed
qed simp

text \<open>The NOT nodes at the end of the heap follow one another.\<close>

definition top_chain :: "eval_el list \<Rightarrow> bool" where
  "top_chain h \<longleftrightarrow>
     (\<forall>k<length h. (\<forall>j. k \<le> j \<longrightarrow> j < length h \<longrightarrow> e_op (h ! j) = WQL_NOT) \<longrightarrow>
        ref1 (h ! k) = (if k = 0 then (0, TERMINAL_HEAP) else (int k - 1, EVAL_HEAP)))"

lemma enodes_top_chain: "top_chain (enodes 0 0 e)"
proof (induction e)
  case (Join j x y)
  have "e_op (enodes 0 0 (Join j x y) ! (esize x + esize y)) \<noteq> WQL_NOT"
    by (simp add: nth_enodes_Join del: enodes.simps)
  then show ?case unfolding top_chain_def by (auto simp del: enodes.simps)
next
  case (Not x)
  have r: "eref 0 0 x = (if esize x = 0 then (0, TERMINAL_HEAP) else (int (esize x) - 1, EVAL_HEAP))"
    by (cases x) auto
  show ?case unfolding top_chain_def
  proof (intro allI impI)
    fix k assume k: "k < length (enodes 0 0 (Not x))"
      "\<forall>j. k \<le> j \<longrightarrow> j < length (enodes 0 0 (Not x)) \<longrightarrow> e_op (enodes 0 0 (Not x) ! j) = WQL_NOT"
    show "ref1 (enodes 0 0 (Not x) ! k) = (if k = 0 then (0, TERMINAL_HEAP) else (int k - 1, EVAL_HEAP))"
    proof (cases "k < esize x")
      case True
      then have "\<forall>j. k \<le> j \<longrightarrow> j < esize x \<longrightarrow> e_op (enodes 0 0 x ! j) = WQL_NOT"
        using k(2) by (metis length_enodes less_SucI nth_enodes_Not esize.simps(3) Suc_eq_plus1)
      then show ?thesis using Not.IH True k(1) by (simp add: top_chain_def nth_enodes_Not del: enodes.simps)
    next
      case False
      then show ?thesis using k(1) r by (simp add: nth_enodes_Not del: enodes.simps)
    qed
  qed
qed (simp add: top_chain_def)

end
