(* ===== verification/WQL_Push.thy ===== *)
theory WQL_Push
  imports WQL_Heap
begin

text \<open>
  \<^verbatim>\<open>WQLCompile::_pushNOTDown\<close> keeps the value of the root and leaves AND and OR nodes only.

  A round of the loop removes a NOT or a mark at one element and flips a set of references: the
  marks of the elements and the comparisons of the terminals they denote.
\<close>

section \<open>Flipping references\<close>

definition flip_el :: "ref set \<Rightarrow> nat \<Rightarrow> eval_el \<Rightarrow> eval_el" where
  "flip_el S k e = (if (int k, EVAL_HEAP) \<in> S then e\<lparr>e_mark := \<not> e_mark e\<rparr> else e)"

definition flip_term :: "ref set \<Rightarrow> nat \<Rightarrow> 'r term_el \<Rightarrow> 'r term_el" where
  "flip_term S k t = (if (int k, TERMINAL_HEAP) \<in> S then negate t else t)"

definition upd_nth :: "(nat \<Rightarrow> 'a \<Rightarrow> 'a) \<Rightarrow> 'a list \<Rightarrow> 'a list" where
  "upd_nth F xs = map (\<lambda>k. F k (xs ! k)) [0..<length xs]"

lemma length_upd_nth [simp]: "length (upd_nth F xs) = length xs"
  by (simp add: upd_nth_def)

lemma nth_upd_nth [simp]: "k < length xs \<Longrightarrow> upd_nth F xs ! k = F k (xs ! k)"
  by (simp add: upd_nth_def)

lemma upd_nth_eqI: "length ys = length xs \<Longrightarrow> (\<And>k. k < length xs \<Longrightarrow> ys ! k = F k (xs ! k)) \<Longrightarrow> ys = upd_nth F xs"
  by (auto intro: nth_equalityI)

definition flip_state :: "ref set \<Rightarrow> 'r WQLCompile \<Rightarrow> 'r WQLCompile" where
  "flip_state S c =
     c\<lparr>eval_heap := upd_nth (flip_el S) (eval_heap c), terminal_heap := upd_nth (flip_term S) (terminal_heap c)\<rparr>"

lemma flip_state_empty [simp]: "flip_state {} c = c"
proof -
  have "upd_nth (flip_el {}) h = h" "upd_nth (flip_term {}) ts = ts" for h and ts :: "'a term_el list"
    by (auto intro!: nth_equalityI simp: flip_el_def flip_term_def)
  then show ?thesis by (simp add: flip_state_def)
qed

lemma flip_el_sel [simp]:
  "e_op (flip_el S k e) = e_op e" "ref1 (flip_el S k e) = ref1 e" "ref2 (flip_el S k e) = ref2 e"
  "refs (flip_el S k e) = refs e" "active (flip_el S k e) = active e"
  "e_mark (flip_el S k e) = (e_mark e \<noteq> ((int k, EVAL_HEAP) \<in> S))"
  by (auto simp: flip_el_def ref1_def ref2_def refs_def unary_def active_def)

lemma ref1_in_refs [simp]: "ref1 e \<in> set (refs e)"
  by (simp add: refs_def)

lemma ok_ref_cases:
  assumes "ok_ref m k r"
  obtains (eval) j where "r = (int j, EVAL_HEAP)" "j < k" | (terminal) j where "r = (int j, TERMINAL_HEAP)" "j < m"
  using ok_ref_eval[OF assms] ok_ref_term[OF assms] by (cases "snd r = EVAL_HEAP") blast+

lemma push_operand_flip:
  assumes "ok_ref (length (terminal_heap c)) (length (eval_heap c)) r"
  shows "push_operand (fst r) (snd r) c = Inr (flip_state {r} c)"
  using assms
proof (cases rule: ok_ref_cases)
  case (eval k)
  have "(eval_heap c)[k := (eval_heap c ! k)\<lparr>e_mark := \<not> e_mark (eval_heap c ! k)\<rparr>] =
          upd_nth (flip_el {r}) (eval_heap c)"
    using eval by (intro upd_nth_eqI) (auto simp: flip_el_def nth_list_update)
  moreover have "upd_nth (flip_term {r}) (terminal_heap c) = terminal_heap c"
    using eval by (intro upd_nth_eqI[symmetric]) (auto simp: flip_term_def)
  ultimately show ?thesis using eval by (simp add: push_operand_def arr_upd_in flip_state_def)
next
  case (terminal k)
  have "(terminal_heap c)[k := negate (terminal_heap c ! k)] = upd_nth (flip_term {r}) (terminal_heap c)"
    using terminal by (intro upd_nth_eqI) (auto simp: flip_term_def nth_list_update)
  moreover have "upd_nth (flip_el {r}) (eval_heap c) = eval_heap c"
    using terminal by (intro upd_nth_eqI[symmetric]) (auto simp: flip_el_def)
  ultimately show ?thesis using terminal by (simp add: push_operand_def arr_upd_in flip_state_def)
qed

lemma flip_state_insert:
  assumes "q \<notin> S"
  shows "flip_state {q} (flip_state S c) = flip_state (insert q S) c"
proof -
  have "upd_nth (flip_el {q}) (upd_nth (flip_el S) h) = upd_nth (flip_el (insert q S)) h" for h
    using assms by (intro upd_nth_eqI) (auto simp: flip_el_def)
  moreover have "upd_nth (flip_term {q}) (upd_nth (flip_term S) ts) = upd_nth (flip_term (insert q S)) ts"
    for ts :: "'a term_el list"
    using assms by (intro upd_nth_eqI) (auto simp: flip_term_def)
  ultimately show ?thesis by (simp add: flip_state_def)
qed

section \<open>One round of the loop\<close>

definition sub_ref :: "nat \<Rightarrow> ref \<Rightarrow> ref \<Rightarrow> ref" where
  "sub_ref i q r = (if r = (int i, EVAL_HEAP) then q else r)"

definition redirect :: "nat \<Rightarrow> ref \<Rightarrow> eval_el \<Rightarrow> eval_el" where
  "redirect i q e =
     e\<lparr>e_opn1 := fst (sub_ref i q (ref1 e)), e_type1 := snd (sub_ref i q (ref1 e)),
       e_opn2 := fst (sub_ref i q (ref2 e)), e_type2 := snd (sub_ref i q (ref2 e))\<rparr>"

lemma redirect_sel [simp]:
  "e_op (redirect i q e) = e_op e" "e_mark (redirect i q e) = e_mark e" "active (redirect i q e) = active e"
  "ref1 (redirect i q e) = sub_ref i q (ref1 e)" "ref2 (redirect i q e) = sub_ref i q (ref2 e)"
  "refs (redirect i q e) = map (sub_ref i q) (refs e)"
  by (simp_all add: redirect_def active_def ref1_def ref2_def refs_def unary_def)

lemma subst_unary_at_redirect:
  assumes "i < j"
  shows "subst_unary_at i j h = h[j := redirect i (ref1 (h ! i)) (h ! j)]"
proof (cases "j < length h")
  case True
  then show ?thesis using assms
    by (auto simp: subst_unary_at_def Let_def redirect_def sub_ref_def ref1_def ref2_def
        assign_unary_to_first_def assign_unary_to_second_def intro!: arg_cong[where f = "list_update h j"])
next
  case False
  then show ?thesis by (simp add: subst_unary_at_def Let_def list_update_beyond not_less)
qed

lemma length_fold_update [simp]: "length (fold (\<lambda>j h. h[j := F j h]) js h) = length h"
  by (induction js arbitrary: h) auto

lemma nth_fold_update:
  "distinct js \<Longrightarrow> i \<notin> set js \<Longrightarrow> k < length h \<Longrightarrow>
   fold (\<lambda>j h. h[j := F (h ! i) (h ! j)]) js h ! k = (if k \<in> set js then F (h ! i) (h ! k) else h ! k)"
proof (induction js arbitrary: h)
  case (Cons a js)
  then show ?case by (cases "k = a") auto
qed simp

lemma subst_unary_nth:
  assumes "k < length h"
  shows "length (subst_unary i h) = length h"
    and "subst_unary i h ! k = (if i < k then redirect i (ref1 (h ! i)) (h ! k) else h ! k)"
proof -
  have *: "subst_unary i h = fold (\<lambda>j h. h[j := redirect i (ref1 (h ! i)) (h ! j)]) (rev [i + 1..<length h]) h"
    unfolding subst_unary_def by (rule fold_cong) (auto simp: subst_unary_at_redirect)
  show "length (subst_unary i h) = length h" unfolding * by simp
  show "subst_unary i h ! k = (if i < k then redirect i (ref1 (h ! i)) (h ! k) else h ! k)"
    unfolding * using assms nth_fold_update[of "rev [i + 1..<length h]" i k h "\<lambda>a. redirect i (ref1 a)"] by auto
qed

lemma order_el_sel [simp]: "e_op (order_el e) = e_op e" "e_mark (order_el e) = e_mark e"
  by (auto simp: order_el_def)

lemma order_el_refs:
  "(ref1 (order_el e) = ref1 e \<and> ref2 (order_el e) = ref2 e) \<or> (ref1 (order_el e) = ref2 e \<and> ref2 (order_el e) = ref1 e)"
  by (auto simp: order_el_def ref1_def ref2_def)

lemma order_el_nil: "ref2 e = nil_ref \<Longrightarrow> order_el e = e"
  by (simp add: order_el_def ref2_def)

text \<open>An AND or OR: its mark is removed by De Morgan's law.\<close>

definition de_morgan :: "eval_el \<Rightarrow> eval_el" where
  "de_morgan e =
     (order_el e)\<lparr>e_mark := False, e_op := (if e_mark e then flip_and_or (e_op e) else e_op e)\<rparr>"

lemma de_morgan_sel [simp]:
  "e_mark (de_morgan e) = False" "e_op (de_morgan e) = (if e_mark e then flip_and_or (e_op e) else e_op e)"
  "ref1 (de_morgan e) = ref1 (order_el e)" "ref2 (de_morgan e) = ref2 (order_el e)"
  by (simp_all add: de_morgan_def ref1_def ref2_def)

lemma flip_and_or_simps [simp]: "flip_and_or WQL_AND = WQL_OR" "flip_and_or WQL_OR = WQL_AND"
  by (simp_all add: flip_and_or_def)

lemma de_morgan_refs:
  assumes "e_op e \<in> {WQL_AND, WQL_OR}"
  shows "set (refs (de_morgan e)) = set (refs e)" "distinct (refs (de_morgan e)) = distinct (refs e)"
  using assms order_el_refs[of e] by (auto simp: refs_def unary_def)

lemma push_at_join:
  assumes "i < length (eval_heap c)" "e_op (eval_heap c ! i) \<in> {WQL_AND, WQL_OR}"
    and "tree_node (length (terminal_heap c)) h R i (eval_heap c ! i)"
  shows "push_at i c = Inr (flip_state (if e_mark (eval_heap c ! i) then set (refs (eval_heap c ! i)) else {})
            (c\<lparr>eval_heap := (eval_heap c)[i := de_morgan (eval_heap c ! i)]\<rparr>))"
proof -
  define e where "e = eval_heap c ! i"
  define c1 where "c1 = c\<lparr>eval_heap := (eval_heap c)[i := de_morgan e]\<rparr>"
  have op: "e_op e \<in> {WQL_AND, WQL_OR}" and le: "i < length (eval_heap c)" using assms by (simp_all add: e_def)
  have refs: "refs e = [ref1 e, ref2 e]" using op by (auto simp: refs_def unary_def)
  have tn: "ref1 e \<noteq> ref2 e" "ok_ref (length (terminal_heap c)) i (ref1 e)" "ok_ref (length (terminal_heap c)) i (ref2 e)"
    using assms(3) refs by (auto simp: tree_node_def e_def)
  show ?thesis
  proof (cases "e_mark e")
    case False
    then have "de_morgan e = order_el e" by (simp add: de_morgan_def)
    then show ?thesis using False op le by (auto simp: push_at_def push_not_def push_mark_def e_def[symmetric])
  next
    case True
    define r1 r2 where r: "r1 = ref1 (order_el e)" "r2 = ref2 (order_el e)"
    have rr: "r1 \<noteq> r2" "{r2, r1} = set (refs e)" using order_el_refs[of e] tn(1) refs by (auto simp: r)
    have "\<forall>r\<in>set (refs e). ok_ref (length (terminal_heap c)) (length (eval_heap c)) r"
      using tn(2,3) refs le by (auto simp: ok_ref_def)
    then have ok: "ok_ref (length (terminal_heap c)) (length (eval_heap c)) r1"
      "ok_ref (length (terminal_heap c)) (length (eval_heap c)) r2"
      using rr(2) by auto
    have "push_at i c = bind_r (push_operand (fst r1) (snd r1) c1)
        (\<lambda>c2. if 0 \<le> fst r2 then push_operand (fst r2) (snd r2) c2 else Inr c2)"
      using True op le
      by (auto simp: push_at_def push_not_def push_mark_def e_def[symmetric] c1_def de_morgan_def r ref1_def ref2_def
          cong: if_cong)
    moreover have "push_operand (fst r1) (snd r1) c1 = Inr (flip_state {r1} c1)"
      using ok by (intro push_operand_flip) (simp add: c1_def)
    moreover have "push_operand (fst r2) (snd r2) (flip_state {r1} c1) = Inr (flip_state {r2} (flip_state {r1} c1))"
      using ok by (intro push_operand_flip) (simp add: c1_def flip_state_def)
    ultimately show ?thesis
      using True rr flip_state_insert[of r2 "{r1}" c1] ok(2) by (simp add: ok_ref_def e_def[symmetric] c1_def)
  qed
qed

text \<open>A NOT: it is disconnected.\<close>

definition unlink :: "nat \<Rightarrow> ref \<Rightarrow> nat \<Rightarrow> eval_el \<Rightarrow> eval_el" where
  "unlink i q k e = (if k = i then e\<lparr>e_mark := False, e_op := WQL_DO_NOTHING\<rparr> else redirect i q e)"

lemma redirect_same: "ref1 e \<noteq> (int i, EVAL_HEAP) \<Longrightarrow> ref2 e \<noteq> (int i, EVAL_HEAP) \<Longrightarrow> redirect i q e = e"
  by (simp add: redirect_def sub_ref_def) (simp add: ref1_def ref2_def)

lemma push_not_unlink:
  assumes "i < length h" "e_op (h ! i) = WQL_NOT"
    and "\<And>k. k < i \<Longrightarrow> ref1 (h ! k) \<noteq> (int i, EVAL_HEAP) \<and> ref2 (h ! k) \<noteq> (int i, EVAL_HEAP)"
  shows "push_not i h = (upd_nth (unlink i (ref1 (h ! i))) h, \<not> e_mark (h ! i))"
proof -
  let ?h = "h[i := (h ! i)\<lparr>e_op := WQL_DO_NOTHING\<rparr>]"
  have nth: "subst_unary i ?h ! k = (if k = i then (h ! i)\<lparr>e_op := WQL_DO_NOTHING\<rparr> else redirect i (ref1 (h ! i)) (h ! k))"
    if "k < length h" for k
    using that assms subst_unary_nth(2)[of k ?h i] by (auto simp: nth_list_update redirect_same ref1_def)
  have len: "length (subst_unary i ?h) = length h"
    using subst_unary_nth(1)[of i ?h i] assms(1) by simp
  have "(subst_unary i ?h)[i := (h ! i)\<lparr>e_op := WQL_DO_NOTHING, e_mark := False\<rparr>] = upd_nth (unlink i (ref1 (h ! i))) h"
    using assms(1) len by (intro upd_nth_eqI) (auto simp: nth_list_update nth unlink_def)
  moreover have "subst_unary i ?h = upd_nth (unlink i (ref1 (h ! i))) h" if "\<not> e_mark (h ! i)"
    using that len by (intro upd_nth_eqI) (auto simp: nth unlink_def)
  ultimately show ?thesis using assms(1,2) nth[of i] by (auto simp: push_not_def Let_def)
qed

lemma push_at_not:
  assumes "i < length (eval_heap c)" "e_op (eval_heap c ! i) = WQL_NOT"
    and "tree_node (length (terminal_heap c)) h R i (eval_heap c ! i)"
    and "\<And>k. k < i \<Longrightarrow> ref1 (eval_heap c ! k) \<noteq> (int i, EVAL_HEAP) \<and> ref2 (eval_heap c ! k) \<noteq> (int i, EVAL_HEAP)"
  shows "push_at i c = Inr (flip_state (if e_mark (eval_heap c ! i) then {} else {ref1 (eval_heap c ! i)})
            (c\<lparr>eval_heap := upd_nth (unlink i (ref1 (eval_heap c ! i))) (eval_heap c)\<rparr>))"
proof -
  define e where "e = eval_heap c ! i"
  define c1 where "c1 = c\<lparr>eval_heap := upd_nth (unlink i (ref1 e)) (eval_heap c)\<rparr>"
  have e: "ref2 e = nil_ref" "ok_ref (length (terminal_heap c)) i (ref1 e)"
    using assms(2,3) by (auto simp: tree_node_def refs_def unary_def e_def)
  have "ok_ref (length (terminal_heap c1)) (length (eval_heap c1)) (ref1 e)"
    using e(2) assms(1) by (auto simp: ok_ref_def c1_def)
  note push = push_operand_flip[OF this]
  have "eval_heap c1 ! i = e\<lparr>e_mark := False, e_op := WQL_DO_NOTHING\<rparr>"
    using assms(1) by (simp add: c1_def unlink_def e_def)
  then have i: "e_mark (eval_heap c1 ! i) = False" "e_opn1 (eval_heap c1 ! i) = fst (ref1 e)" "e_type1 (eval_heap c1 ! i) = snd (ref1 e)"
    "e_opn2 (eval_heap c1 ! i) < 0"
    using e(1) by (simp_all add: ref1_def ref2_def)
  have "push_not i ((eval_heap c)[i := order_el (eval_heap c ! i)]) = (eval_heap c1, \<not> e_mark e)"
    using push_not_unlink[OF assms(1,2,4)] order_el_nil[OF e(1)] by (simp add: e_def c1_def)
  then show ?thesis
    using i push by (simp add: push_at_def push_mark_def e_def[symmetric] c1_def[symmetric]) (simp add: c1_def)
qed

section \<open>The tree under a round\<close>

lemma treeD:
  assumes "tree m h R"
  shows "ok_ref m (length h) R" "live h R"
    and "k < length h \<Longrightarrow> active (h ! k) \<Longrightarrow> tree_node m h R k (h ! k)"
    and "j < length h \<Longrightarrow> k < length h \<Longrightarrow> j \<noteq> k \<Longrightarrow> active (h ! j) \<Longrightarrow> active (h ! k) \<Longrightarrow>
           set (refs (h ! j)) \<inter> set (refs (h ! k)) = {}"
  using assms by (simp_all add: tree_def)

lemma live_cong: "(\<And>k. active (h' ! k) = active (h ! k)) \<Longrightarrow> live h' = live h"
  by (auto simp: live_def fun_eq_iff)

lemma ok_ref_live_cong:
  "length h' = length h \<Longrightarrow> (\<And>k. k < length h \<Longrightarrow> active (h' ! k) = active (h ! k)) \<Longrightarrow> ok_ref m (length h) r \<Longrightarrow>
   live h' r = live h r"
  by (auto simp: live_def ok_ref_def)

lemma ok_ref_mono: "ok_ref m k r \<Longrightarrow> k \<le> n \<Longrightarrow> ok_ref m n r"
  by (auto simp: ok_ref_def)

text \<open>Only the operations and the sets of references matter.\<close>

lemma tree_cong:
  assumes t: "tree m h R" and len: "length h' = length h"
    and act: "\<And>k. k < length h \<Longrightarrow> active (h' ! k) = active (h ! k)"
    and node: "\<And>k. k < length h \<Longrightarrow> active (h ! k) \<Longrightarrow>
       e_op (h' ! k) \<in> {WQL_AND, WQL_OR, WQL_NOT} \<and> (e_op (h' ! k) = WQL_NOT \<longrightarrow> ref2 (h' ! k) = nil_ref) \<and>
       set (refs (h' ! k)) = set (refs (h ! k)) \<and> distinct (refs (h' ! k)) = distinct (refs (h ! k))"
  shows "tree m h' R"
proof -
  have live: "live h' r" if "ok_ref m k r" "k \<le> length h" "live h r" for k r
    using ok_ref_live_cong[OF len act] that ok_ref_mono by blast
  have "tree_node m h' R k (h' ! k)" if "k < length h'" "active (h' ! k)" for k
    using treeD(3)[OF t, of k] node[of k] act[of k] live[of k] that len by (auto simp: tree_node_def)
  then show ?thesis
    using treeD[OF t] live[OF treeD(1)[OF t]] node act len unfolding tree_def by simp
qed

lemma tree_flip:
  assumes "tree m h R"
  shows "tree m (upd_nth (flip_el S) h) R"
proof (rule tree_cong[OF assms])
  fix k assume "k < length h" "active (h ! k)"
  then show "e_op (upd_nth (flip_el S) h ! k) \<in> {WQL_AND, WQL_OR, WQL_NOT} \<and>
       (e_op (upd_nth (flip_el S) h ! k) = WQL_NOT \<longrightarrow> ref2 (upd_nth (flip_el S) h ! k) = nil_ref) \<and>
       set (refs (upd_nth (flip_el S) h ! k)) = set (refs (h ! k)) \<and>
       distinct (refs (upd_nth (flip_el S) h ! k)) = distinct (refs (h ! k))"
    using treeD(3)[OF assms, of k] by (simp add: tree_node_def)
qed simp_all

lemma tree_join:
  assumes "tree m h R" "i < length h" "e_op (h ! i) \<in> {WQL_AND, WQL_OR}"
  shows "tree m (h[i := de_morgan (h ! i)]) R"
proof (rule tree_cong[OF assms(1)])
  fix k assume k: "k < length h"
  show "active (h[i := de_morgan (h ! i)] ! k) = active (h ! k)"
    using assms(3) k by (cases "k = i") (auto simp: active_def)
  assume a: "active (h ! k)"
  show "e_op (h[i := de_morgan (h ! i)] ! k) \<in> {WQL_AND, WQL_OR, WQL_NOT} \<and>
       (e_op (h[i := de_morgan (h ! i)] ! k) = WQL_NOT \<longrightarrow> ref2 (h[i := de_morgan (h ! i)] ! k) = nil_ref) \<and>
       set (refs (h[i := de_morgan (h ! i)] ! k)) = set (refs (h ! k)) \<and>
       distinct (refs (h[i := de_morgan (h ! i)] ! k)) = distinct (refs (h ! k))"
    using treeD(3)[OF assms(1) k a] assms(3) de_morgan_refs[OF assms(3)] k
    by (cases "k = i") (auto simp: tree_node_def)
qed simp

lemma sub_ref_inj: "sub_ref i q r = sub_ref i q r' \<Longrightarrow> r \<noteq> q \<Longrightarrow> r' \<noteq> q \<Longrightarrow> r = r'"
  by (auto simp: sub_ref_def split: if_splits)

lemma tree_unlink:
  assumes t: "tree m h R" and i: "i < length h" and op: "e_op (h ! i) = WQL_NOT"
  defines "q \<equiv> ref1 (h ! i)"
  shows "tree m (upd_nth (unlink i q) h) (sub_ref i q R)"
proof -
  let ?h = "upd_nth (unlink i q) h"
  have ai: "active (h ! i)" "refs (h ! i) = [q]" using op by (auto simp: active_def refs_def unary_def q_def)
  have ni: "tree_node m h R i (h ! i)" by (rule treeD(3)[OF t i ai(1)])
  have act: "active (?h ! k) \<longleftrightarrow> k \<noteq> i \<and> active (h ! k)" if "k < length h" for k
    using that by (auto simp: unlink_def active_def)
  have rf: "refs (?h ! k) = map (sub_ref i q) (refs (h ! k))" if "k < length h" "k \<noteq> i" for k
    using that by (auto simp: unlink_def)
  have op': "e_op (?h ! k) = e_op (h ! k)" "ref2 (h ! k) = nil_ref \<Longrightarrow> ref2 (?h ! k) = nil_ref"
    if "k < length h" "k \<noteq> i" for k
    using that by (auto simp: unlink_def sub_ref_def)
  note [simp del] = nth_upd_nth
  have q: "q \<notin> set (refs (h ! k))" if "k < length h" "k \<noteq> i" "active (h ! k)" for k
    using treeD(4)[OF t i that(1)] that ai by auto
  have qR: "q \<noteq> R" "ok_ref m i q" "live h q" using ni ai(2) by (auto simp: tree_node_def)
  have live: "live ?h (sub_ref i q r) \<and> ok_ref m k (sub_ref i q r)" if "ok_ref m k r" "live h r" "k \<le> length h" for k r
  proof (cases "r = (int i, EVAL_HEAP)")
    case True
    then have "i < k" using that by (auto simp: ok_ref_def)
    then show ?thesis using True qR act[of "nat (fst q)"] i
      by (auto simp: sub_ref_def live_def ok_ref_def)
  next
    case False
    then show ?thesis using that act[of "nat (fst r)"]
      by (cases r) (auto simp: sub_ref_def live_def ok_ref_def)
  qed
  have "tree_node m ?h (sub_ref i q R) k (?h ! k)" if k: "k < length h" "k \<noteq> i" "active (h ! k)" for k
  proof -
    have n: "tree_node m h R k (h ! k)" by (rule treeD(3)[OF t k(1,3)])
    have "distinct (refs (?h ! k))" "sub_ref i q R \<notin> set (refs (?h ! k))"
      using n q[OF k] qR(1) by (auto simp: rf[OF k(1,2)] tree_node_def distinct_map inj_on_def dest: sub_ref_inj)
    moreover have "\<forall>r\<in>set (refs (?h ! k)). ok_ref m k r \<and> live ?h r"
      using n live k(1) by (auto simp: rf[OF k(1,2)] tree_node_def)
    ultimately show ?thesis using n op'[OF k(1,2)] by (simp add: tree_node_def)
  qed
  moreover have "set (refs (?h ! j)) \<inter> set (refs (?h ! k)) = {}"
    if "j < length h" "k < length h" "j \<noteq> k" "j \<noteq> i" "k \<noteq> i" "active (h ! j)" "active (h ! k)" for j k
    using treeD(4)[OF t, of j k] q[of j] q[of k] that by (auto simp: rf dest!: sub_ref_inj)
  ultimately show ?thesis
    using live[OF treeD(1,2)[OF t]] act unfolding tree_def by simp
qed

section \<open>The valuation under a round\<close>

text \<open>
  \<open>neg_closed tv P Q\<close>: negating a terminal in \<open>Q\<close> complements its value, stays in \<open>Q\<close> and keeps \<open>P\<close>, the
  property every terminal has.
\<close>

definition neg_closed :: "('r term_el \<Rightarrow> bool) \<Rightarrow> ('r term_el \<Rightarrow> bool) \<Rightarrow> ('r term_el \<Rightarrow> bool) \<Rightarrow> bool" where
  "neg_closed tv P Q \<longleftrightarrow> (\<forall>t. Q t \<longrightarrow> tv (negate t) = (\<not> tv t) \<and> Q (negate t) \<and> P (negate t))"

definition flip_val :: "ref set \<Rightarrow> (nat \<Rightarrow> bool) \<Rightarrow> nat \<Rightarrow> bool" where
  "flip_val S f k = (f k \<noteq> ((int k, EVAL_HEAP) \<in> S))"

lemma refv_flip:
  assumes "neg_closed tv P Q" "\<And>r. r \<in> S \<Longrightarrow> neg_ref Q ts G r" "ok_ref (length ts) n r"
  shows "refv tv (upd_nth (flip_term S) ts) (flip_val S f) r = (refv tv ts f r \<noteq> (r \<in> S))"
  using assms(3)
proof (cases rule: ok_ref_cases)
  case (eval j)
  then show ?thesis by (simp add: flip_val_def)
next
  case (terminal j)
  then show ?thesis using assms(1) assms(2)[of r]
    by (cases "r \<in> S") (auto simp: flip_term_def neg_closed_def neg_ref_def)
qed

lemma node_val_flip_el: "node_val tv ts f (flip_el S k e) = (node_val tv ts f e \<noteq> ((int k, EVAL_HEAP) \<in> S))"
  by (auto simp: node_val_def)

lemma node_val_redirect:
  assumes "e_op e \<in> {WQL_AND, WQL_OR, WQL_NOT}"
    and "\<And>r. r \<in> set (refs e) \<Longrightarrow> refv tv ts' g (sub_ref i q r) = refv tv ts f r"
  shows "node_val tv ts' g (redirect i q e) = node_val tv ts f e"
  using assms(1)
proof (elim insertE emptyE)
  assume "e_op e = WQL_NOT"
  then show ?thesis using assms(2)[of "ref1 e"] by (simp add: node_val_def refs_def unary_def)
qed (use assms(2)[of "ref1 e"] assms(2)[of "ref2 e"] in \<open>simp_all add: node_val_def refs_def unary_def\<close>)

lemma tree_node_ok:
  assumes "tree m h R" "k < length h" "active (h ! k)"
  shows "e_op (h ! k) \<in> {WQL_AND, WQL_OR, WQL_NOT}"
    and "r \<in> set (refs (h ! k)) \<Longrightarrow> ok_ref m k r \<and> ok_ref m (length h) r"
  using treeD(3)[OF assms] assms(2) by (auto simp: tree_node_def ok_ref_def)

text \<open>The references flipped by a round at \<open>i\<close>.\<close>

definition flips :: "eval_el \<Rightarrow> ref set" where
  "flips e = (if e_mark e = (e_op e = WQL_NOT) then {} else set (refs e))"

lemma flips_subset: "flips e \<subseteq> set (refs e)"
  by (simp add: flips_def)

lemma flips_neg_ref:
  assumes "negs Q ts h G" "i < length h" "active (h ! i)" "r \<in> flips (h ! i)"
  shows "neg_ref Q ts G r"
  using assms by (auto simp: negs_def flips_def split: if_splits)

lemma not_flipped:
  assumes "tree m h R" "i < length h" "active (h ! i)" "k < length h" "active (h ! k)" "k \<noteq> i" "r \<in> set (refs (h ! k))"
  shows "r \<notin> flips (h ! i)"
  using treeD(4)[OF assms(1,2,4)] assms flips_subset[of "h ! i"] by blast

lemma i_not_flipped:
  assumes "tree m h R" "i < length h" "active (h ! i)" "i \<le> k"
  shows "(int k, EVAL_HEAP) \<notin> flips (h ! i)"
  using tree_node_ok(2)[OF assms(1-3), of "(int k, EVAL_HEAP)"] flips_subset[of "h ! i"] assms(4)
  by (auto simp: ok_ref_def)

lemma refv_flips:
  assumes "tree (length ts) h R" "negs Q ts h G" "neg_closed tv P Q" "i < length h" "active (h ! i)"
    and "ok_ref (length ts) n r"
  shows "refv tv (upd_nth (flip_term (flips (h ! i))) ts) (flip_val (flips (h ! i)) f) r =
           (refv tv ts f r \<noteq> (r \<in> flips (h ! i)))"
  by (rule refv_flip[OF assms(3) flips_neg_ref[OF assms(2,4,5)] assms(6)])

lemma node_val_de_morgan:
  assumes "e_op e \<in> {WQL_AND, WQL_OR}"
    and "refv tv ts' g (ref1 e) = (refv tv ts f (ref1 e) \<noteq> e_mark e)"
    and "refv tv ts' g (ref2 e) = (refv tv ts f (ref2 e) \<noteq> e_mark e)"
  shows "node_val tv ts' g (de_morgan e) = node_val tv ts f e"
  using assms(1) order_el_refs[of e]
  by (cases "e_mark e") (auto simp: node_val_def assms(2,3))

lemma sat_join:
  assumes t: "tree (length ts) h R" and s: "sat tv ts h f" and n: "negs Q ts h G" and c: "neg_closed tv P Q"
    and i: "i < length h" and op: "e_op (h ! i) \<in> {WQL_AND, WQL_OR}"
  defines "S \<equiv> flips (h ! i)"
  shows "sat tv (upd_nth (flip_term S) ts) (upd_nth (flip_el S) (h[i := de_morgan (h ! i)])) (flip_val S f)"
  unfolding sat_def
proof (intro allI impI)
  let ?h = "upd_nth (flip_el S) (h[i := de_morgan (h ! i)])" and ?ts = "upd_nth (flip_term S) ts"
  fix k assume "k < length ?h" and ak: "active (?h ! k)"
  then have k: "k < length h" by simp
  have ai: "active (h ! i)" using op by (auto simp: active_def)
  note rv = refv_flips[OF t n c i ai, folded S_def]
  show "flip_val S f k = node_val tv ?ts (flip_val S f) (?h ! k)"
  proof (cases "k = i")
    case True
    have rf: "refs (h ! i) = [ref1 (h ! i), ref2 (h ! i)]" using op by (auto simp: refs_def unary_def)
    have S: "S = (if e_mark (h ! i) then {ref1 (h ! i), ref2 (h ! i)} else {})"
      using op rf by (auto simp: S_def flips_def)
    have "refv tv ?ts (flip_val S f) r = (refv tv ts f r \<noteq> e_mark (h ! i))" if "r \<in> set (refs (h ! i))" for r
    proof -
      have "(r \<in> S) = e_mark (h ! i)" using that by (auto simp: S rf)
      then show ?thesis using rv[of i r f] tree_node_ok(2)[OF t i ai that] by simp
    qed
    then have "node_val tv ?ts (flip_val S f) (de_morgan (h ! i)) = node_val tv ts f (h ! i)"
      by (intro node_val_de_morgan op) (simp_all add: rf)
    then show ?thesis using True k s ai i_not_flipped[OF t i ai]
      by (simp add: node_val_flip_el flip_val_def S_def sat_def)
  next
    case False
    then have ak: "active (h ! k)" using ak k by simp
    have "refv tv ?ts (flip_val S f) r = refv tv ts f r" if "r \<in> set (refs (h ! k))" for r
      using rv[of k r f] tree_node_ok(2)[OF t k ak that] not_flipped[OF t i ai k ak False that] by (simp add: S_def)
    then have "node_val tv ?ts (flip_val S f) (h ! k) = node_val tv ts f (h ! k)"
      using tree_node_ok(1)[OF t k ak] by (intro node_val_refs) simp_all
    then show ?thesis using s k False ak by (simp add: node_val_flip_el flip_val_def sat_def)
  qed
qed

text \<open>For a NOT, the redirected references have the value they had.\<close>

lemma refv_unlink:
  assumes t: "tree (length ts) h R" and s: "sat tv ts h f" and n: "negs Q ts h G" and c: "neg_closed tv P Q"
    and i: "i < length h" and op: "e_op (h ! i) = WQL_NOT"
    and r: "ok_ref (length ts) (length h) r" "r \<noteq> ref1 (h ! i)"
  defines "S \<equiv> flips (h ! i)" and "q \<equiv> ref1 (h ! i)"
  shows "refv tv (upd_nth (flip_term S) ts) (flip_val S f) (sub_ref i q r) = refv tv ts f r"
proof -
  have ai: "active (h ! i)" and rf: "refs (h ! i) = [q]" using op by (auto simp: active_def refs_def unary_def q_def)
  note rv = refv_flips[OF t n c i ai, folded S_def]
  have S: "S = (if e_mark (h ! i) then {} else {q})" using op rf by (simp add: S_def flips_def)
  show ?thesis
  proof (cases "r = (int i, EVAL_HEAP)")
    case True
    have "f i = (e_mark (h ! i) \<noteq> (\<not> refv tv ts f q))"
      using s i ai op by (simp add: sat_def node_val_def q_def)
    then show ?thesis using True rv[of i q f] tree_node_ok(2)[OF t i ai, of q] rf by (auto simp: sub_ref_def S)
  next
    case False
    then show ?thesis using rv[OF r(1), of f] r(2) by (auto simp: sub_ref_def S q_def)
  qed
qed

lemma sat_unlink:
  assumes t: "tree (length ts) h R" and s: "sat tv ts h f" and n: "negs Q ts h G" and c: "neg_closed tv P Q"
    and i: "i < length h" and op: "e_op (h ! i) = WQL_NOT"
  defines "S \<equiv> flips (h ! i)" and "q \<equiv> ref1 (h ! i)"
  shows "sat tv (upd_nth (flip_term S) ts) (upd_nth (flip_el S) (upd_nth (unlink i q) h)) (flip_val S f)"
  unfolding sat_def
proof (intro allI impI)
  let ?h = "upd_nth (flip_el S) (upd_nth (unlink i q) h)" and ?ts = "upd_nth (flip_term S) ts"
  fix k assume "k < length ?h" and ak: "active (?h ! k)"
  then have k: "k < length h" "k \<noteq> i" "active (h ! k)"
    by (auto simp: unlink_def active_def split: if_splits)
  have ai: "active (h ! i)" and rf: "refs (h ! i) = [q]" using op by (auto simp: active_def refs_def unary_def q_def)
  have "refv tv ?ts (flip_val S f) (sub_ref i q r) = refv tv ts f r" if "r \<in> set (refs (h ! k))" for r
  proof -
    have "r \<noteq> q" using treeD(4)[OF t i k(1)] k ai rf that by auto
    then show ?thesis
      using refv_unlink[OF t s n c i op] tree_node_ok(2)[OF t k(1,3) that] by (simp add: S_def q_def)
  qed
  then have "node_val tv ?ts (flip_val S f) (redirect i q (h ! k)) = node_val tv ts f (h ! k)"
    using tree_node_ok(1)[OF t k(1,3)] by (intro node_val_redirect) auto
  then show "flip_val S f k = node_val tv ?ts (flip_val S f) (?h ! k)"
    using s k by (simp add: node_val_flip_el flip_val_def sat_def unlink_def)
qed

section \<open>The negated part under a round\<close>

lemma neg_ref_flip:
  assumes "neg_closed tv P Q" "ok_ref (length ts) n r" "neg_ref Q ts G r"
  shows "neg_ref Q (upd_nth (flip_term S) ts) G r"
  using assms(2) by (cases rule: ok_ref_cases) (use assms(1,3) in \<open>auto simp: neg_ref_def flip_term_def neg_closed_def\<close>)

lemma negs_step:
  assumes t: "tree (length ts) h R" and n: "negs Q ts h G" and c: "neg_closed tv P Q"
    and i: "i < length h" "active (h ! i)" and len: "length h' = length h"
    and act: "\<And>k. k < length h \<Longrightarrow> active (h' ! k) \<Longrightarrow> active (h ! k)"
    and op: "\<And>k. k < length h \<Longrightarrow> active (h' ! k) \<Longrightarrow> e_op (h' ! k) = WQL_NOT \<Longrightarrow> e_op (h ! k) = WQL_NOT"
    and mark: "\<And>k. k < length h \<Longrightarrow> active (h' ! k) \<Longrightarrow> e_mark (h' ! k) \<Longrightarrow> e_mark (h ! k) \<or> (int k, EVAL_HEAP) \<in> flips (h ! i)"
    and rf: "\<And>k r. k < length h \<Longrightarrow> active (h' ! k) \<Longrightarrow> r \<in> set (refs (h' ! k)) \<Longrightarrow>
       r \<in> set (refs (h ! k)) \<or> ((int i, EVAL_HEAP) \<in> set (refs (h ! k)) \<and> r \<in> set (refs (h ! i)))"
  shows "negs Q (upd_nth (flip_term S) ts) h' G"
  unfolding negs_def
proof (intro allI impI conjI ballI)
  fix k assume "k < length h'" and ak: "active (h' ! k)"
  then have k: "k < length h" "active (h ! k)" using len act by auto
  show "k \<in> G" if "e_mark (h' ! k) \<or> e_op (h' ! k) = WQL_NOT"
    using that mark[OF k(1) ak] op[OF k(1) ak] n k flips_neg_ref[OF n i, of "(int k, EVAL_HEAP)"]
    by (auto simp: negs_def neg_ref_def)
  fix r assume kG: "k \<in> G" and r: "r \<in> set (refs (h' ! k))"
  have nk: "neg_ref Q ts G x" if "x \<in> set (refs (h ! k))" for x
    using n k kG that by (auto simp: negs_def)
  from rf[OF k(1) ak r] show "neg_ref Q (upd_nth (flip_term S) ts) G r"
  proof
    assume "r \<in> set (refs (h ! k))"
    then show ?thesis using neg_ref_flip[OF c _ nk] tree_node_ok(2)[OF t k] by blast
  next
    assume *: "(int i, EVAL_HEAP) \<in> set (refs (h ! k)) \<and> r \<in> set (refs (h ! i))"
    then have "i \<in> G" using nk[of "(int i, EVAL_HEAP)"] by (simp add: neg_ref_def)
    then have "neg_ref Q ts G r" using n i * by (auto simp: negs_def)
    then show ?thesis using neg_ref_flip[OF c] tree_node_ok(2)[OF t i] * by blast
  qed
qed

section \<open>The loop\<close>

text \<open>
  The invariant: elements from \<open>i\<close> on are done, and the root reference \<open>R\<close> is the last active element,
  or, when the heap ends in NOT nodes only, the next element to come.
\<close>

definition root_at :: "eval_el list \<Rightarrow> nat \<Rightarrow> eval_el list \<Rightarrow> ref \<Rightarrow> bool" where
  "root_at h0 i h R \<longleftrightarrow>
     (\<exists>k. i \<le> k \<and> k < length h \<and> R = (int k, EVAL_HEAP) \<and> (\<forall>j. k < j \<longrightarrow> j < length h \<longrightarrow> \<not> active (h ! j))) \<or>
     ((\<forall>j. i \<le> j \<longrightarrow> j < length h \<longrightarrow> \<not> active (h ! j) \<and> e_op (h0 ! j) = WQL_NOT) \<and>
      R = (if i = 0 then (0, TERMINAL_HEAP) else (int i - 1, EVAL_HEAP)))"

definition push_inv :: "('r term_el \<Rightarrow> bool) \<Rightarrow> ('r term_el \<Rightarrow> bool) \<Rightarrow> ('r term_el \<Rightarrow> bool) \<Rightarrow> eval_el list \<Rightarrow> bool \<Rightarrow>
    nat \<Rightarrow> 'r term_el list \<Rightarrow> eval_el list \<Rightarrow> ref \<Rightarrow> (nat \<Rightarrow> bool) \<Rightarrow> nat set \<Rightarrow> bool" where
  "push_inv tv P Q h0 v i ts h R f G \<longleftrightarrow>
     tree (length ts) h R \<and> sat tv ts h f \<and> refv tv ts f R = v \<and> negs Q ts h G \<and> (\<forall>t\<in>set ts. P t) \<and>
     length h = length h0 \<and> i \<le> length h \<and> root_at h0 i h R \<and>
     (\<forall>k<i. active (h ! k) \<and> e_op (h ! k) = e_op (h0 ! k) \<and> ref1 (h ! k) = ref1 (h0 ! k)) \<and>
     (\<forall>k. i \<le> k \<longrightarrow> k < length h \<longrightarrow> active (h ! k) \<longrightarrow> e_op (h ! k) \<in> {WQL_AND, WQL_OR} \<and> \<not> e_mark (h ! k))"

lemma flip_terms_P:
  assumes "neg_closed tv P Q" "\<forall>t\<in>set ts. P t" "\<And>r. r \<in> S \<Longrightarrow> neg_ref Q ts G r"
  shows "\<forall>t\<in>set (upd_nth (flip_term S) ts). P t"
  using assms(1,2) assms(3)[of "(int _, TERMINAL_HEAP)"]
  by (auto simp: in_set_conv_nth[of _ "upd_nth _ _"] flip_term_def neg_closed_def neg_ref_def)

lemma push_step_join:
  assumes inv: "push_inv tv P Q h0 v (Suc i) ts h R f G" and c: "neg_closed tv P Q"
    and op: "e_op (h ! i) \<in> {WQL_AND, WQL_OR}"
  defines "S \<equiv> flips (h ! i)"
  shows "push_inv tv P Q h0 v i (upd_nth (flip_term S) ts) (upd_nth (flip_el S) (h[i := de_morgan (h ! i)])) R
           (flip_val S f) G"
proof -
  let ?h = "upd_nth (flip_el S) (h[i := de_morgan (h ! i)])"
  have t: "tree (length ts) h R" and s: "sat tv ts h f" and n: "negs Q ts h G" and i: "i < length h"
    and len: "length h = length h0" and ro: "root_at h0 (Suc i) h R" and P: "\<forall>t\<in>set ts. P t"
    and v: "refv tv ts f R = v"
    using inv by (auto simp: push_inv_def)
  have ai: "active (h ! i)" using op by (auto simp: active_def)
  have nth: "?h ! k = flip_el S k (if k = i then de_morgan (h ! i) else h ! k)" if "k < length h" for k
    using that by simp
  note [simp del] = nth_upd_nth
  have act: "active (?h ! k) = active (h ! k)" if "k < length h" for k
    using that op ai by (auto simp: nth active_def)
  have ge: "(int k, EVAL_HEAP) \<notin> S" if "i \<le> k" for k using i_not_flipped[OF t i ai that] by (simp add: S_def)
  have RS: "R \<notin> S" using treeD(3)[OF t i ai] flips_subset[of "h ! i"] by (auto simp: tree_node_def S_def)
  have "negs Q (upd_nth (flip_term S) ts) ?h G"
    by (rule negs_step[OF t n c i ai])
       (use op act de_morgan_refs[OF op] in \<open>auto simp: nth S_def[symmetric] split: if_splits\<close>)
  moreover have "refv tv (upd_nth (flip_term S) ts) (flip_val S f) R = v"
    using refv_flips[OF t n c i ai treeD(1)[OF t]] RS v by (simp add: S_def)
  moreover have "root_at h0 i ?h R"
  proof -
    have "(int i, EVAL_HEAP) = R" if "\<forall>j. Suc i \<le> j \<longrightarrow> j < length h \<longrightarrow> \<not> active (h ! j)"
      using ro that treeD(2)[OF t] by (auto simp: root_at_def live_def)
    then show ?thesis using ro act i by (auto simp: root_at_def)
  qed
  moreover have "\<forall>k. i \<le> k \<longrightarrow> k < length h \<longrightarrow> active (h ! k) \<longrightarrow> e_op (?h ! k) \<in> {WQL_AND, WQL_OR} \<and> \<not> e_mark (?h ! k)"
    using inv op ge by (auto simp: push_inv_def nth)
  moreover have "\<forall>k<i. active (?h ! k) \<and> e_op (?h ! k) = e_op (h0 ! k) \<and> ref1 (?h ! k) = ref1 (h0 ! k)"
    using inv i act by (auto simp: push_inv_def nth)
  ultimately show ?thesis
    using tree_flip[OF tree_join[OF t i op], of S] sat_join[OF t s n c i op] flip_terms_P[OF c P flips_neg_ref[OF n i ai]]
      act i len by (simp add: push_inv_def S_def)
qed

lemma push_step_not:
  assumes inv: "push_inv tv P Q h0 v (Suc i) ts h R f G" and c: "neg_closed tv P Q"
    and op: "e_op (h ! i) = WQL_NOT" and ch: "top_chain h0"
  defines "S \<equiv> flips (h ! i)" and "q \<equiv> ref1 (h ! i)"
  shows "push_inv tv P Q h0 v i (upd_nth (flip_term S) ts) (upd_nth (flip_el S) (upd_nth (unlink i q) h)) (sub_ref i q R)
           (flip_val S f) G"
proof -
  let ?h = "upd_nth (flip_el S) (upd_nth (unlink i q) h)"
  have t: "tree (length ts) h R" and s: "sat tv ts h f" and n: "negs Q ts h G" and i: "i < length h"
    and len: "length h = length h0" and ro: "root_at h0 (Suc i) h R" and P: "\<forall>t\<in>set ts. P t"
    and v: "refv tv ts f R = v" and h0: "e_op (h ! i) = e_op (h0 ! i)" "q = ref1 (h0 ! i)"
    using inv by (auto simp: push_inv_def q_def)
  have ai: "active (h ! i)" and rf: "refs (h ! i) = [q]" using op by (auto simp: active_def refs_def unary_def q_def)
  have nth: "?h ! k = flip_el S k (unlink i q k (h ! k))" if "k < length h" for k
    using that by simp
  note [simp del] = nth_upd_nth
  have act: "active (?h ! k) \<longleftrightarrow> k \<noteq> i \<and> active (h ! k)" if "k < length h" for k
    using that by (auto simp: nth unlink_def active_def)
  have ge: "(int k, EVAL_HEAP) \<notin> S" if "i \<le> k" for k using i_not_flipped[OF t i ai that] by (simp add: S_def)
  have Rq: "R \<noteq> q" using treeD(3)[OF t i ai] rf by (auto simp: tree_node_def)
  have "negs Q (upd_nth (flip_term S) ts) ?h G"
    by (rule negs_step[OF t n c i ai])
       (use act rf in \<open>auto simp: nth unlink_def sub_ref_def S_def[symmetric] split: if_splits\<close>)
  moreover have "refv tv (upd_nth (flip_term S) ts) (flip_val S f) (sub_ref i q R) = v"
    using refv_unlink[OF t s n c i op treeD(1)[OF t]] Rq v by (simp add: S_def q_def)
  moreover have "root_at h0 i ?h (sub_ref i q R)"
  proof (cases "R = (int i, EVAL_HEAP)")
    case True
    then have "\<forall>j. i \<le> j \<longrightarrow> j < length h \<longrightarrow> e_op (h0 ! j) = WQL_NOT" "\<forall>j. Suc i \<le> j \<longrightarrow> j < length h \<longrightarrow> \<not> active (h ! j)"
      using ro op h0(1) le_eq_less_or_eq[of i] by (auto simp: root_at_def Suc_le_eq)
    then show ?thesis using ch i len True h0(2) act by (auto simp: root_at_def top_chain_def sub_ref_def)
  next
    case False
    then have "sub_ref i q R = R" by (simp add: sub_ref_def)
    then show ?thesis using ro False act by (auto simp: root_at_def intro: Suc_leD)
  qed
  moreover have "\<forall>k. i \<le> k \<longrightarrow> k < length h \<longrightarrow> active (?h ! k) \<longrightarrow> e_op (?h ! k) \<in> {WQL_AND, WQL_OR} \<and> \<not> e_mark (?h ! k)"
    using inv ge act by (auto simp: push_inv_def nth unlink_def)
  moreover have "active (?h ! k) \<and> e_op (?h ! k) = e_op (h0 ! k) \<and> ref1 (?h ! k) = ref1 (h0 ! k)" if "k < i" for k
  proof -
    have "active (h ! k)" "e_op (h ! k) = e_op (h0 ! k)" "ref1 (h ! k) = ref1 (h0 ! k)"
      using inv that by (auto simp: push_inv_def)
    moreover have "ref1 (h ! k) \<noteq> (int i, EVAL_HEAP)"
      using tree_node_ok(2)[OF t _ \<open>active (h ! k)\<close> ref1_in_refs] that i by (auto simp: ok_ref_def)
    ultimately show ?thesis using act[of k] that i by (simp add: nth unlink_def sub_ref_def)
  qed
  ultimately show ?thesis
    using tree_flip[OF tree_unlink[OF t i op], of S] sat_unlink[OF t s n c i op] flip_terms_P[OF c P flips_neg_ref[OF n i ai]]
      i len by (simp add: push_inv_def S_def q_def)
qed

lemma push_step:
  assumes inv: "push_inv tv P Q h0 v (Suc i) (terminal_heap c) (eval_heap c) R f G" and cl: "neg_closed tv P Q"
    and ch: "top_chain h0"
  shows "\<exists>c' R' f'. push_at i c = Inr c' \<and> tableau c' = tableau c \<and>
           push_inv tv P Q h0 v i (terminal_heap c') (eval_heap c') R' f' G"
proof -
  let ?h = "eval_heap c"
  have t: "tree (length (terminal_heap c)) ?h R" and i: "i < length ?h" and ai: "active (?h ! i)"
    using inv by (auto simp: push_inv_def)
  note tn = treeD(3)[OF t i ai]
  from tree_node_ok(1)[OF t i ai] consider "e_op (?h ! i) \<in> {WQL_AND, WQL_OR}" | "e_op (?h ! i) = WQL_NOT" by auto
  then show ?thesis
  proof cases
    case 1
    then have "flips (?h ! i) = (if e_mark (?h ! i) then set (refs (?h ! i)) else {})" by (auto simp: flips_def)
    then have "push_at i c = Inr (flip_state (flips (?h ! i)) (c\<lparr>eval_heap := ?h[i := de_morgan (?h ! i)]\<rparr>))"
      using push_at_join[OF i 1 tn] by simp
    moreover note push_step_join[OF inv cl 1]
    ultimately show ?thesis unfolding flip_state_def by (intro exI conjI) (assumption, simp_all)
  next
    case 2
    have "ref1 (?h ! k) \<noteq> (int i, EVAL_HEAP) \<and> ref2 (?h ! k) \<noteq> (int i, EVAL_HEAP)" if "k < i" for k
    proof -
      have "active (?h ! k)" using inv that by (auto simp: push_inv_def)
      then have "tree_node (length (terminal_heap c)) ?h R k (?h ! k)" using treeD(3)[OF t] that i by auto
      then show ?thesis using that by (auto simp: tree_node_def refs_def unary_def ok_ref_def)
    qed
    note p = push_at_not[OF i 2 tn this]
    have "flips (?h ! i) = (if e_mark (?h ! i) then {} else {ref1 (?h ! i)})"
      using 2 by (auto simp: flips_def refs_def unary_def)
    then have "push_at i c = Inr (flip_state (flips (?h ! i)) (c\<lparr>eval_heap := upd_nth (unlink i (ref1 (?h ! i))) ?h\<rparr>))"
      using p by simp
    moreover note push_step_not[OF inv cl 2 ch]
    ultimately show ?thesis unfolding flip_state_def by (intro exI conjI) (assumption, simp_all)
  qed
qed

lemma push_loop:
  assumes "push_inv tv P Q h0 v i (terminal_heap c) (eval_heap c) R f G" and cl: "neg_closed tv P Q"
    and ch: "top_chain h0"
  shows "\<exists>c' R' f'. fold_r push_at (rev [0..<i]) c = Inr c' \<and> tableau c' = tableau c \<and>
           push_inv tv P Q h0 v 0 (terminal_heap c') (eval_heap c') R' f' G"
  using assms(1)
proof (induction i arbitrary: c R f)
  case (Suc i)
  from push_step[OF Suc.prems cl ch] obtain c1 R1 f1 where
    1: "push_at i c = Inr c1" "tableau c1 = tableau c" "push_inv tv P Q h0 v i (terminal_heap c1) (eval_heap c1) R1 f1 G"
    by blast
  from Suc.IH[OF 1(3)] 1(1,2) show ?case by auto
qed auto

text \<open>
  The heap after the pass: AND and OR nodes without marks, the last active one the root; or no active
  node and the first terminal the root.
\<close>

definition root_last :: "eval_el list \<Rightarrow> ref \<Rightarrow> bool" where
  "root_last h R \<longleftrightarrow>
     (\<exists>k<length h. R = (int k, EVAL_HEAP) \<and> (\<forall>j. k < j \<longrightarrow> j < length h \<longrightarrow> \<not> active (h ! j))) \<or>
     ((\<forall>j<length h. \<not> active (h ! j)) \<and> R = (0, TERMINAL_HEAP))"

definition no_nots :: "eval_el list \<Rightarrow> bool" where
  "no_nots h \<longleftrightarrow> (\<forall>k<length h. active (h ! k) \<longrightarrow> e_op (h ! k) \<in> {WQL_AND, WQL_OR} \<and> \<not> e_mark (h ! k))"

lemma pushNOTDown_postfix:
  assumes cl: "neg_closed tv P Q" and P: "\<forall>t\<in>set (tnodes e). P t" and neg: "neg_ok Q False e"
    and c: "eval_heap c = enodes 0 0 e" "terminal_heap c = tnodes e"
  shows "\<exists>c' R f. pushNOTDown c = Inr c' \<and> tableau c' = tableau c \<and>
     tree (length (terminal_heap c')) (eval_heap c') R \<and> no_nots (eval_heap c') \<and> root_last (eval_heap c') R \<and>
     (\<forall>t\<in>set (terminal_heap c'). P t) \<and> sat tv (terminal_heap c') (eval_heap c') f \<and>
     refv tv (terminal_heap c') f R = wsem (\<lambda>op l r. tv (mk_term op l r)) e"
proof -
  let ?h = "enodes 0 0 e" and ?v = "wsem (\<lambda>op l r. tv (mk_term op l r)) e"
  note t = enodes_tree[of e]
  have act: "active (?h ! k)" if "k < esize e" for k
    using enodes_ops[OF nth_mem, of k 0 0 e] that by (auto simp: active_def)
  obtain f where f: "sat tv (tnodes e) ?h f"
    using sat_exists[of ?h "tsize e" ?h "eref 0 0 e" tv "tnodes e"] t by (auto simp: tree_def)
  have v: "refv tv (tnodes e) f (eref 0 0 e) = ?v"
    using enodes_value[of e f 0 tv "tnodes e" 0] f act by (simp add: sat_def)
  have n: "negs Q (tnodes e) ?h (under_not False 0 e)"
    using enodes_negs[OF neg, of "tnodes e" 0 _ 0] enodes_ops[OF nth_mem, of _ 0 0 e] by (auto simp: negs_def)
  have r: "root_at ?h (esize e) ?h (eref 0 0 e)"
    by (cases e) (auto simp: root_at_def)
  have "push_inv tv P Q ?h ?v (esize e) (tnodes e) ?h (eref 0 0 e) f (under_not False 0 e)"
    using t f v n P r act by (simp add: push_inv_def)
  from push_loop[OF this[folded c] cl] enodes_top_chain[of e] obtain c' R f' where
    1: "pushNOTDown c = Inr c'" "tableau c' = tableau c"
       "push_inv tv P Q ?h ?v 0 (terminal_heap c') (eval_heap c') R f' (under_not False 0 e)"
    unfolding pushNOTDown_def c by auto
  from 1(3) have "no_nots (eval_heap c')" "root_last (eval_heap c') R"
    by (auto simp: push_inv_def no_nots_def root_at_def root_last_def)
  with 1 show ?thesis unfolding push_inv_def by blast
qed

end
