(* ===== verification/WQL_Factor.thy ===== *)
theory WQL_Factor
  imports WQL_Push
begin

text \<open>
  \<^verbatim>\<open>WQLCompile::_factoring\<close> ends, keeps the value of the root and leaves no OR below an AND.

  The loop multiplies out \<open>(x OR y) AND s\<close>. Its effect on a valuation is the same for the truth values
  of the elements and for the number of disjuncts they stand for; the second one is the measure
  that makes the loop end. Both are instances of one locale.
\<close>

section \<open>The heap a round leaves\<close>

definition and_el :: "ref \<Rightarrow> ref \<Rightarrow> eval_el" where
  "and_el s x = order_el (mk_node WQL_AND s x)"

definition factored :: "nat \<Rightarrow> ref \<Rightarrow> ref \<Rightarrow> ref \<Rightarrow> eval_el list \<Rightarrow> eval_el list" where
  "factored i s x y h =
     take i h @ [and_el s y, and_el s x, mk_node WQL_OR (int i + 1, EVAL_HEAP) (int i, EVAL_HEAP)] @
     map (shift2 i) (drop (i + 1) h)"

lemma length_factored: "i < length h \<Longrightarrow> length (factored i s x y h) = length h + 2"
  by (simp add: factored_def)

lemma nth_factored:
  assumes "i < length h"
  shows "k < i \<Longrightarrow> factored i s x y h ! k = h ! k"
    and "factored i s x y h ! i = and_el s y"
    and "factored i s x y h ! Suc i = and_el s x"
    and "factored i s x y h ! Suc (Suc i) = mk_node WQL_OR (int i + 1, EVAL_HEAP) (int i, EVAL_HEAP)"
    and "i < k \<Longrightarrow> k < length h \<Longrightarrow> factored i s x y h ! Suc (Suc k) = shift2 i (h ! k)"
  using assms by (simp_all add: factored_def nth_append nth_Cons' Suc_diff_le)

lemma factored_cases [consumes 2]:
  assumes "k < length h + 2" "i < length h"
  obtains (below) "k < i" | (new_y) "k = i" | (new_x) "k = Suc i" | (new_or) "k = Suc (Suc i)"
    | (above) l where "k = Suc (Suc l)" "i < l" "l < length h"
proof (cases "k \<le> Suc (Suc i)")
  case True
  then show thesis using that(1-4) by linarith
next
  case False
  then show thesis using that(5)[of "k - 2"] assms by simp
qed

lemma and_el_sel [simp]: "e_op (and_el s x) = WQL_AND" "e_mark (and_el s x) = False"
  by (simp_all add: and_el_def)

lemma and_el_refs: "(ref1 (and_el s x) = s \<and> ref2 (and_el s x) = x) \<or> (ref1 (and_el s x) = x \<and> ref2 (and_el s x) = s)"
  using order_el_refs[of "mk_node WQL_AND s x"] by (simp add: and_el_def)

lemma set_refs_and_el [simp]: "set (refs (and_el s x)) = {s, x}"
  using and_el_refs[of s x] by (auto simp: refs_def unary_def)

lemma factor_and_el: "factor_and (stk_of s) (stk_of x) e = and_el s x"
  by (cases e) (simp add: factor_and_def and_el_def mk_node_def mk_eval_def setFirst_def setSecond_def)

definition shift_ref :: "nat \<Rightarrow> ref \<Rightarrow> ref" where
  "shift_ref i r = (if snd r = EVAL_HEAP \<and> int i \<le> fst r then (fst r + 2, EVAL_HEAP) else r)"

lemma shift2_sel [simp]:
  "e_op (shift2 i e) = e_op e" "e_mark (shift2 i e) = e_mark e" "active (shift2 i e) = active e"
  "ref1 (shift2 i e) = shift_ref i (ref1 e)" "ref2 (shift2 i e) = shift_ref i (ref2 e)"
  "refs (shift2 i e) = map (shift_ref i) (refs e)"
  by (auto simp: shift2_def Let_def active_def ref1_def ref2_def refs_def unary_def shift_ref_def)

lemma stk_of_refs: "getFirst e = stk_of (ref1 e)" "getSecond e = stk_of (ref2 e)"
  by (simp_all add: getFirst_def getSecond_def stk_of_def ref1_def ref2_def)

lemma fold_update_suffix:
  "fold (\<lambda>j h. h[j := F (h ! j)]) (rev [length xs..<length (xs @ ys)]) (xs @ ys) = xs @ map F ys" (is "?l = _")
proof (rule nth_equalityI)
  fix k assume "k < length ?l"
  then have k: "k < length (xs @ ys)" by simp
  have "?l ! k = (if k \<in> set (rev [length xs..<length (xs @ ys)]) then F ((xs @ ys) ! k) else (xs @ ys) ! k)"
    using nth_fold_update[of "rev [length xs..<length (xs @ ys)]" "length (xs @ ys)" k "xs @ ys" "\<lambda>_. F"] k by simp
  then show "?l ! k = (xs @ map F ys) ! k" using k by (auto simp: nth_append)
qed simp

abbreviation or_el :: "nat \<Rightarrow> eval_el" where
  "or_el i \<equiv> mk_node WQL_OR (int i + 1, EVAL_HEAP) (int i, EVAL_HEAP)"

lemma factor_insert_eq:
  assumes "i < length h"
  shows "factor_insert i h = (take (i + 1) h @ [or_el i, or_el i]) @ map (shift2 i) (drop (i + 1) h)"
proof -
  let ?p = "take (i + 1) h @ [or_el i, or_el i]"
  have p: "length ?p = i + 3" using assms by simp
  have "factor_insert i h =
      fold (\<lambda>j h. h[j := shift2 i (h ! j)]) (rev [i + 3..<length (?p @ drop (i + 1) h)]) (?p @ drop (i + 1) h)"
    using assms by (auto simp: factor_insert_def arr_insert_def mk_node_def Let_def)
  then show ?thesis using fold_update_suffix[of "shift2 i" ?p "drop (i + 1) h"] unfolding p by simp
qed

text \<open>What the search of the loop finds.\<close>

definition or_child :: "eval_el list \<Rightarrow> ref \<Rightarrow> bool" where
  "or_child h r \<longleftrightarrow> snd r = EVAL_HEAP \<and> e_op (h ! nat (fst r)) = WQL_OR"

lemma is_or_at_ok:
  "ok_ref m (length h) r \<Longrightarrow> is_or_at h (snd r) (fst r) = Inr (or_child h r)"
  by (auto simp: is_or_at_def or_child_def ok_ref_def arr_get_in)

lemma factor_find_ok:
  assumes "e_op (h ! i) = WQL_AND" "ok_ref m (length h) (ref1 (h ! i))" "ok_ref m (length h) (ref2 (h ! i))"
  shows "factor_find i h =
     Inr (if or_child h (ref1 (h ! i)) then Some (fst (ref1 (h ! i)), stk_of (ref2 (h ! i)))
          else if or_child h (ref2 (h ! i)) then Some (fst (ref2 (h ! i)), stk_of (ref1 (h ! i))) else None)"
  using assms(1) is_or_at_ok[OF assms(2)] is_or_at_ok[OF assms(3)]
  by (auto simp: factor_find_def Let_def ref1_def ref2_def stk_of_def getFirst_def getSecond_def)

lemma factor_at_some:
  assumes "factor_find i h = Inr (Some (int j, stk_of s))" "i < length h" "j < i"
  shows "factor_at i h = Inr (Some (factored i s (ref1 (h ! j)) (ref2 (h ! j)) h))"
proof -
  let ?h = "factor_insert i h"
  have j: "?h ! j = h ! j" "j < length ?h" using assms(2,3) by (simp_all add: factor_insert_eq nth_append)
  have "?h[i + 1 := and_el s (ref1 (h ! j)), i := and_el s (ref2 (h ! j))] = factored i s (ref1 (h ! j)) (ref2 (h ! j)) h"
    using assms(2) by (simp add: factor_insert_eq factored_def list_update_append take_Suc_conv_app_nth)
  then show ?thesis using assms j
    by (simp add: factor_at_def Let_def stk_of_refs factor_and_el arr_get_int)
qed

section \<open>Valuations in a distributive structure\<close>

definition gref :: "(nat \<Rightarrow> 'b) \<Rightarrow> (nat \<Rightarrow> 'b) \<Rightarrow> ref \<Rightarrow> 'b" where
  "gref t f r = (if snd r = EVAL_HEAP then f (nat (fst r)) else t (nat (fst r)))"

definition gnode :: "(nat \<Rightarrow> 'b) \<Rightarrow> ('b \<Rightarrow> 'b \<Rightarrow> 'b) \<Rightarrow> ('b \<Rightarrow> 'b \<Rightarrow> 'b) \<Rightarrow> (nat \<Rightarrow> 'b) \<Rightarrow> eval_el \<Rightarrow> 'b" where
  "gnode t cj dj f e = (if e_op e = WQL_AND then cj else dj) (gref t f (ref1 e)) (gref t f (ref2 e))"

definition gsat :: "(nat \<Rightarrow> 'b) \<Rightarrow> ('b \<Rightarrow> 'b \<Rightarrow> 'b) \<Rightarrow> ('b \<Rightarrow> 'b \<Rightarrow> 'b) \<Rightarrow> eval_el list \<Rightarrow> (nat \<Rightarrow> 'b) \<Rightarrow> bool" where
  "gsat t cj dj h f \<longleftrightarrow> (\<forall>k<length h. active (h ! k) \<longrightarrow> f k = gnode t cj dj f (h ! k))"

lemma gref_simps [simp]: "gref t f (int k, EVAL_HEAP) = f k" "gref t f (int k + 1, EVAL_HEAP) = f (Suc k)"
  "gref t f (int k, TERMINAL_HEAP) = t k"
  by (simp_all add: gref_def nat_add_distrib)

text \<open>The values after a round at \<open>i\<close>: \<open>b\<close> and \<open>a\<close> for the new elements, the others move up by two.\<close>

definition split_val :: "nat \<Rightarrow> 'b \<Rightarrow> 'b \<Rightarrow> (nat \<Rightarrow> 'b) \<Rightarrow> nat \<Rightarrow> 'b" where
  "split_val i a b f k = (if k < i then f k else if k = i then b else if k = Suc i then a else f (k - 2))"

lemma split_val_simps [simp]:
  "k < i \<Longrightarrow> split_val i a b f k = f k" "split_val i a b f i = b" "split_val i a b f (Suc i) = a"
  "i \<le> k \<Longrightarrow> split_val i a b f (Suc (Suc k)) = f k"
  by (simp_all add: split_val_def)

lemma gref_split_val [simp]:
  "ok_ref m i r \<Longrightarrow> gref t (split_val i a b f) r = gref t f r"
  "ok_ref m n r \<Longrightarrow> gref t (split_val i a b f) (shift_ref i r) = gref t f r"
proof -
  assume "ok_ref m i r"
  then show "gref t (split_val i a b f) r = gref t f r" by (auto simp: gref_def ok_ref_def)
next
  assume r: "ok_ref m n r"
  show "gref t (split_val i a b f) (shift_ref i r) = gref t f r"
  proof (cases "snd r = EVAL_HEAP \<and> int i \<le> fst r")
    case True
    moreover from this have "nat (fst r + 2) = Suc (Suc (nat (fst r)))" "i \<le> nat (fst r)" by linarith+
    ultimately show ?thesis by (simp add: gref_def shift_ref_def)
  next
    case False
    then show ?thesis using r by (auto simp: gref_def shift_ref_def ok_ref_def)
  qed
qed

text \<open>The AND at \<open>i\<close> has the OR at \<open>j\<close> and \<open>s\<close> as its operands.\<close>

definition factor_point :: "nat \<Rightarrow> eval_el list \<Rightarrow> nat \<Rightarrow> nat \<Rightarrow> ref \<Rightarrow> bool" where
  "factor_point m h i j s \<longleftrightarrow>
     i < length h \<and> j < i \<and> e_op (h ! i) = WQL_AND \<and> e_op (h ! j) = WQL_OR \<and>
     ((ref1 (h ! i) = (int j, EVAL_HEAP) \<and> ref2 (h ! i) = s) \<or> (ref2 (h ! i) = (int j, EVAL_HEAP) \<and> ref1 (h ! i) = s)) \<and>
     (\<forall>k<length h. active (h ! k) \<longrightarrow> e_op (h ! k) \<in> {WQL_AND, WQL_OR} \<and> ok_ref m k (ref1 (h ! k)) \<and> ok_ref m k (ref2 (h ! k)))"

abbreviation factor_heap :: "nat \<Rightarrow> nat \<Rightarrow> ref \<Rightarrow> eval_el list \<Rightarrow> eval_el list" where
  "factor_heap i j s h \<equiv> factored i s (ref1 (h ! j)) (ref2 (h ! j)) h"

lemma factor_point_ok:
  assumes "factor_point m h i j s"
  shows "ok_ref m i s" "ok_ref m i (ref1 (h ! j))" "ok_ref m i (ref2 (h ! j))"
proof -
  have "active (h ! i)" "active (h ! j)" "i < length h" "j < length h" "j < i"
    using assms by (auto simp: factor_point_def active_def)
  then show "ok_ref m i s" "ok_ref m i (ref1 (h ! j))" "ok_ref m i (ref2 (h ! j))"
    using assms ok_ref_mono[of m j _ i] by (auto simp: factor_point_def)
qed

locale factor_val =
  fixes t :: "nat \<Rightarrow> 'b" and cj :: "'b \<Rightarrow> 'b \<Rightarrow> 'b" and dj :: "'b \<Rightarrow> 'b \<Rightarrow> 'b"
  assumes comm: "cj x y = cj y x"
    and distrib: "cj (dj x y) z = dj (cj z x) (cj z y)"
begin

lemma gnode_and_el: "gnode t cj dj f (and_el s x) = cj (gref t f s) (gref t f x)"
  using and_el_refs[of s x] comm by (auto simp: gnode_def)

lemma factor_value:
  assumes "factor_point m h i j s" "gsat t cj dj h f"
  shows "f i = dj (cj (gref t f s) (gref t f (ref1 (h ! j)))) (cj (gref t f s) (gref t f (ref2 (h ! j))))"
proof -
  have h: "active (h ! i)" "active (h ! j)" "i < length h" "j < length h" "e_op (h ! i) = WQL_AND" "e_op (h ! j) = WQL_OR"
    using assms(1) by (auto simp: factor_point_def active_def)
  have j: "f j = dj (gref t f (ref1 (h ! j))) (gref t f (ref2 (h ! j)))"
    using assms(2) h by (simp add: gsat_def gnode_def)
  have "f i = cj (gref t f (ref1 (h ! i))) (gref t f (ref2 (h ! i)))"
    using assms(2) h by (simp add: gsat_def gnode_def)
  also have "\<dots> = cj (f j) (gref t f s)"
    using assms(1) comm by (auto simp: factor_point_def)
  finally show ?thesis by (simp add: j distrib)
qed

lemma gsat_factored:
  assumes p: "factor_point m h i j s" and g: "gsat t cj dj h f"
  shows "gsat t cj dj (factor_heap i j s h)
     (split_val i (cj (gref t f s) (gref t f (ref1 (h ! j)))) (cj (gref t f s) (gref t f (ref2 (h ! j)))) f)"
    (is "gsat t cj dj ?h ?f")
  unfolding gsat_def
proof (intro allI impI)
  fix k assume k: "k < length ?h" and ak: "active (?h ! k)"
  have i: "i < length h" using p by (simp add: factor_point_def)
  note nth = nth_factored[OF i]
  note ok = factor_point_ok[OF p]
  have okk: "ok_ref m l (ref1 (h ! l)) \<and> ok_ref m l (ref2 (h ! l))" if "l < length h" "active (h ! l)" for l
    using p that by (auto simp: factor_point_def)
  from k length_factored[OF i] have "k < length h + 2" by simp
  from this i show "?f k = gnode t cj dj ?f (?h ! k)"
  proof (cases rule: factored_cases)
    case below
    then have "ok_ref m i (ref1 (h ! k))" "ok_ref m i (ref2 (h ! k))" "f k = gnode t cj dj f (h ! k)"
      using okk[of k] ak g i nth(1)[of k s "ref1 (h ! j)" "ref2 (h ! j)"] by (simp_all add: gsat_def ok_ref_mono[of m k _ i])
    then show ?thesis using below by (simp add: nth gnode_def)
  next
    case (above l)
    then have "ok_ref m l (ref1 (h ! l))" "ok_ref m l (ref2 (h ! l))" "f l = gnode t cj dj f (h ! l)"
      using okk[of l] ak g by (auto simp: nth gsat_def)
    then show ?thesis using above by (simp add: nth gnode_def)
  qed (use ok factor_value[OF p g] in \<open>simp_all add: nth gnode_and_el, simp add: gnode_def\<close>)
qed

end

section \<open>The structure kept by the loop\<close>

definition fac_node :: "nat \<Rightarrow> eval_el list \<Rightarrow> nat \<Rightarrow> eval_el \<Rightarrow> bool" where
  "fac_node m h k e \<longleftrightarrow>
     e_op e \<in> {WQL_AND, WQL_OR} \<and> \<not> e_mark e \<and> (\<forall>r\<in>set (refs e). ok_ref m k r \<and> live h r)"

text \<open>
  An OR node, and every node from \<open>i\<close> on, is an operand of at most one OR: operands are shared
  between AND nodes only.
\<close>

definition critical :: "nat \<Rightarrow> eval_el list \<Rightarrow> ref \<Rightarrow> bool" where
  "critical i h r \<longleftrightarrow> snd r = EVAL_HEAP \<and> (int i \<le> fst r \<or> e_op (h ! nat (fst r)) = WQL_OR)"

definition or_unique :: "nat \<Rightarrow> eval_el list \<Rightarrow> bool" where
  "or_unique i h \<longleftrightarrow>
     (\<forall>k<length h. e_op (h ! k) = WQL_OR \<longrightarrow> critical i h (ref1 (h ! k)) \<longrightarrow> ref1 (h ! k) \<noteq> ref2 (h ! k)) \<and>
     (\<forall>j<length h. \<forall>k<length h. j \<noteq> k \<longrightarrow> e_op (h ! j) = WQL_OR \<longrightarrow> e_op (h ! k) = WQL_OR \<longrightarrow>
        (\<forall>r\<in>set (refs (h ! j)) \<inter> set (refs (h ! k)). \<not> critical i h r))"

definition fac_inv :: "nat \<Rightarrow> nat \<Rightarrow> eval_el list \<Rightarrow> ref \<Rightarrow> bool" where
  "fac_inv m i h R \<longleftrightarrow>
     root_last h R \<and> ok_ref m (length h) R \<and> live h R \<and>
     (\<forall>k<length h. active (h ! k) \<longrightarrow> fac_node m h k (h ! k)) \<and>
     (\<forall>k<length h. k < i \<longrightarrow> e_op (h ! k) = WQL_AND \<longrightarrow> (\<forall>r\<in>set (refs (h ! k)). \<not> or_child h r)) \<and>
     or_unique i h"

lemma fac_nodeD:
  assumes "fac_inv m i h R" "k < length h" "active (h ! k)"
  shows "e_op (h ! k) \<in> {WQL_AND, WQL_OR}" "refs (h ! k) = [ref1 (h ! k), ref2 (h ! k)]"
    "r \<in> set (refs (h ! k)) \<Longrightarrow> ok_ref m k r \<and> live h r"
    "ok_ref m k (ref1 (h ! k))" "ok_ref m k (ref2 (h ! k))" "live h (ref1 (h ! k))" "live h (ref2 (h ! k))"
  using assms by (auto simp: fac_inv_def fac_node_def refs_def unary_def)

lemma fac_inv_start:
  assumes "tree m h R" "no_nots h" "root_last h R"
  shows "fac_inv m 0 h R"
proof -
  have "fac_node m h k (h ! k)" if "k < length h" "active (h ! k)" for k
    using treeD(3)[OF assms(1) that] assms(2) that by (auto simp: fac_node_def tree_node_def no_nots_def)
  moreover have "ref1 (h ! k) \<noteq> ref2 (h ! k)" if "k < length h" "e_op (h ! k) = WQL_OR" for k
    using treeD(3)[OF assms(1), of k] that by (auto simp: tree_node_def active_def refs_def unary_def)
  ultimately show ?thesis
    using assms treeD[OF assms(1)] by (auto simp: fac_inv_def or_unique_def active_def)
qed

lemma fac_inv_next:
  assumes "fac_inv m i h R" "i < length h"
    and "e_op (h ! i) = WQL_AND \<Longrightarrow> \<not> or_child h (ref1 (h ! i)) \<and> \<not> or_child h (ref2 (h ! i))"
  shows "fac_inv m (Suc i) h R"
proof -
  have "critical (Suc i) h r \<Longrightarrow> critical i h r" for r by (auto simp: critical_def)
  then have "or_unique (Suc i) h" using assms(1) unfolding fac_inv_def or_unique_def by blast
  then show ?thesis using assms by (auto simp: fac_inv_def less_Suc_eq refs_def unary_def)
qed

text \<open>A round of the loop either finds nothing or a point to factor.\<close>

lemma fac_point:
  assumes inv: "fac_inv m i h R" and i: "i < length h"
  shows "factor_at i h = Inr None \<and> fac_inv m (Suc i) h R \<or>
         (\<exists>j s. factor_point m h i j s \<and> factor_at i h = Inr (Some (factor_heap i j s h)))"
proof (cases "e_op (h ! i) = WQL_AND")
  case False
  then show ?thesis using fac_inv_next[OF inv i] by (auto simp: factor_at_def factor_find_def)
next
  case True
  then have a: "active (h ! i)" by (simp add: active_def)
  note D = fac_nodeD[OF inv i a]
  let ?r1 = "ref1 (h ! i)" and ?r2 = "ref2 (h ! i)"
  have ok: "ok_ref m i ?r1" "ok_ref m i ?r2" using D(2,3) by auto
  then have ok': "ok_ref m (length h) ?r1" "ok_ref m (length h) ?r2" using i ok_ref_mono[of m i _ "length h"] by auto
  note find = factor_find_ok[OF True ok']
  have nodes: "\<forall>k<length h. active (h ! k) \<longrightarrow>
      e_op (h ! k) \<in> {WQL_AND, WQL_OR} \<and> ok_ref m k (ref1 (h ! k)) \<and> ok_ref m k (ref2 (h ! k))"
    using fac_nodeD[OF inv] by simp
  have point: "factor_point m h i (nat (fst r)) s \<and> r = (int (nat (fst r)), EVAL_HEAP)"
    if "or_child h r" "(r = ?r1 \<and> s = ?r2) \<or> (r = ?r2 \<and> s = ?r1)" for r s
  proof -
    have "ok_ref m i r" "snd r = EVAL_HEAP" "e_op (h ! nat (fst r)) = WQL_OR"
      using that ok by (auto simp: or_child_def)
    then show ?thesis using ok_ref_eval[of m i r] that(2) nodes True i by (auto simp: factor_point_def)
  qed
  show ?thesis
  proof (cases "or_child h ?r1 \<or> or_child h ?r2")
    case False
    then show ?thesis using find fac_inv_next[OF inv i] by (simp add: factor_at_def)
  next
    case o: True
    then obtain r s where rs: "(r = ?r1 \<and> s = ?r2) \<or> (r = ?r2 \<and> s = ?r1)" "or_child h r"
      "factor_find i h = Inr (Some (fst r, stk_of s))"
    proof (cases "or_child h ?r1")
      case True
      then show thesis using find that[of ?r1 ?r2] by simp
    next
      case False
      then show thesis using find o that[of ?r2 ?r1] by simp
    qed
    from point[OF rs(2,1)] have "fst r = int (nat (fst r))" "nat (fst r) < i"
      by (simp_all add: factor_point_def prod_eq_iff)
    then have "factor_find i h = Inr (Some (int (nat (fst r)), stk_of s))" "nat (fst r) < i" using rs(3) by simp_all
    then show ?thesis using factor_at_some[OF _ i] point[OF rs(2,1)] by blast
  qed
qed

lemma shift_ref_inj: "shift_ref i r = shift_ref i r' \<Longrightarrow> r = r'"
  by (auto simp: shift_ref_def prod_eq_iff split: if_splits)

lemma shift_ref_neq: "shift_ref i r \<noteq> (int i, EVAL_HEAP)" "shift_ref i r \<noteq> (int i + 1, EVAL_HEAP)"
  by (auto simp: shift_ref_def prod_eq_iff split: if_splits)

lemma shift_ref_low: "ok_ref m k r \<Longrightarrow> k \<le> i \<Longrightarrow> shift_ref i r = r"
  by (auto simp: shift_ref_def ok_ref_def)

lemma shift_ref_ok: "ok_ref m k r \<Longrightarrow> ok_ref m (Suc (Suc k)) (shift_ref i r)"
  by (auto simp: shift_ref_def ok_ref_def)

text \<open>Elements other than the factored AND keep their operation.\<close>

lemma factored_op:
  assumes i: "i < length h" and r: "ok_ref m (length h) r" "snd r = EVAL_HEAP" "r \<noteq> (int i, EVAL_HEAP)"
  shows "e_op (factored i s x y h ! nat (fst (shift_ref i r))) = e_op (h ! nat (fst r))"
proof -
  obtain k where k: "r = (int k, EVAL_HEAP)" "k < length h" "k \<noteq> i"
    using ok_ref_eval[OF r(1,2)] r(3) by blast
  then show ?thesis
    using nth_factored(1)[OF i, of k s x y] nth_factored(5)[OF i, of k s x y]
    by (cases "k < i") (simp_all add: shift_ref_def nat_add_distrib)
qed

lemma factored_live:
  assumes i: "i < length h" and r: "ok_ref m (length h) r" "live h r"
  shows "live (factored i s x y h) (shift_ref i r)"
proof (cases "snd r = EVAL_HEAP")
  case True
  show ?thesis
  proof (cases "r = (int i, EVAL_HEAP)")
    case True
    then have "shift_ref i r = (int (Suc (Suc i)), EVAL_HEAP)" by (simp add: shift_ref_def)
    then show ?thesis using nth_factored(4)[OF i, of s x y]
      by (simp add: live_def active_def del: of_nat_Suc)
  next
    case False
    then show ?thesis using factored_op[OF i r(1) True False] r True by (simp add: live_def active_def)
  qed
qed (simp add: live_def shift_ref_def)

lemma factored_critical:
  assumes "i < length h" "ok_ref m (length h) r" "critical i (factored i s x y h) (shift_ref i r)"
  shows "critical i h r"
proof (cases "snd r = EVAL_HEAP \<and> fst r < int i")
  case True
  then have "e_op (factored i s x y h ! nat (fst (shift_ref i r))) = e_op (h ! nat (fst r))"
    using assms by (intro factored_op) auto
  then show ?thesis using assms(3) True by (simp add: critical_def shift_ref_def)
next
  case False
  then show ?thesis using assms(3) by (auto simp: critical_def shift_ref_def split: if_splits)
qed

lemma factored_ors:
  assumes inv: "fac_inv m i h R" and i: "i < length h" and op: "e_op (h ! i) = WQL_AND"
    and k: "k < length h + 2" "e_op (factored i s x y h ! k) = WQL_OR"
  shows "k = Suc (Suc i) \<or> (\<exists>l<length h. e_op (h ! l) = WQL_OR \<and> k = (if l < i then l else Suc (Suc l)) \<and>
           refs (factored i s x y h ! k) = map (shift_ref i) (refs (h ! l)) \<and>
           ref1 (factored i s x y h ! k) = shift_ref i (ref1 (h ! l)) \<and>
           ref2 (factored i s x y h ! k) = shift_ref i (ref2 (h ! l)))"
  using k(1) i
proof (cases rule: factored_cases)
  case below
  then have o: "e_op (h ! k) = WQL_OR" "k < length h" using k(2) i by (simp_all add: nth_factored(1)[OF i])
  then have "active (h ! k)" by (simp add: active_def)
  note D = fac_nodeD[OF inv o(2) this]
  have "shift_ref i r = r" if "r \<in> set (refs (h ! k))" for r
    using D(3)[OF that] below by (intro shift_ref_low) auto
  then have "map (shift_ref i) (refs (h ! k)) = refs (h ! k)" "shift_ref i (ref1 (h ! k)) = ref1 (h ! k)"
    "shift_ref i (ref2 (h ! k)) = ref2 (h ! k)"
    using D(2) by simp_all
  then show ?thesis using below o nth_factored(1)[OF i below, of s x y] by (intro disjI2 exI[of _ k]) simp
next
  case (above l)
  then show ?thesis using k(2) nth_factored(5)[OF i above(2,3), of s x y] by (intro disjI2 exI[of _ l]) auto
qed (use k(2) in \<open>simp_all add: nth_factored[OF i]\<close>)

lemma or_unique_factored:
  assumes inv: "fac_inv m i h R" and i: "i < length h" and op: "e_op (h ! i) = WQL_AND"
  shows "or_unique i (factored i s x y h)"
proof -
  let ?h = "factored i s x y h"
  note len = length_factored[OF i, of s x y]
  note ors = factored_ors[OF inv i op, of _ s x y]
  have u: "or_unique i h" using inv by (simp add: fac_inv_def)
  have new: "refs (?h ! Suc (Suc i)) = [(int i + 1, EVAL_HEAP), (int i, EVAL_HEAP)]"
    "ref1 (?h ! Suc (Suc i)) \<noteq> ref2 (?h ! Suc (Suc i))"
    by (simp_all add: nth_factored(4)[OF i])
  have ok: "ok_ref m (length h) r" if "l < length h" "e_op (h ! l) = WQL_OR" "r \<in> set (refs (h ! l))" for l r
    using fac_nodeD(3)[OF inv that(1) _ that(3)] that(1,2) ok_ref_mono[of m l r "length h"] by (auto simp: active_def)
  have orig: "\<exists>l r'. l < length h \<and> e_op (h ! l) = WQL_OR \<and> k = (if l < i then l else Suc (Suc l)) \<and>
      r = shift_ref i r' \<and> r' \<in> set (refs (h ! l))"
    if k: "k < length ?h" "e_op (?h ! k) = WQL_OR" "k \<noteq> Suc (Suc i)" "r \<in> set (refs (?h ! k))" for k r
  proof -
    from ors[of k] k(1-3) len obtain l where l: "l < length h" "e_op (h ! l) = WQL_OR"
      "k = (if l < i then l else Suc (Suc l))" "refs (?h ! k) = map (shift_ref i) (refs (h ! l))" by auto
    from k(4) l(4) have "r \<in> shift_ref i ` set (refs (h ! l))" by simp
    with l(1-3) show ?thesis by blast
  qed
  have "ref1 (?h ! k) \<noteq> ref2 (?h ! k)"
    if k: "k < length ?h" "e_op (?h ! k) = WQL_OR" "critical i ?h (ref1 (?h ! k))" for k
  proof (cases "k = Suc (Suc i)")
    case True
    then show ?thesis using new(2) by simp
  next
    case False
    with ors[of k] k(1,2) len obtain l where l: "l < length h" "e_op (h ! l) = WQL_OR"
      "ref1 (?h ! k) = shift_ref i (ref1 (h ! l))" "ref2 (?h ! k) = shift_ref i (ref2 (h ! l))" by auto
    have "critical i h (ref1 (h ! l))"
      using factored_critical[OF i ok[OF l(1,2) ref1_in_refs]] k(3) l(3) by simp
    then show ?thesis using u l shift_ref_inj[of i "ref1 (h ! l)" "ref2 (h ! l)"] by (auto simp: or_unique_def)
  qed
  moreover have "\<not> critical i ?h r"
    if jk: "j < length ?h" "k < length ?h" "j \<noteq> k" "e_op (?h ! j) = WQL_OR" "e_op (?h ! k) = WQL_OR"
      "r \<in> set (refs (?h ! j)) \<inter> set (refs (?h ! k))" for j k r
  proof
    assume c: "critical i ?h r"
    have "j = Suc (Suc i) \<longrightarrow> r = (int i + 1, EVAL_HEAP) \<or> r = (int i, EVAL_HEAP)"
      "k = Suc (Suc i) \<longrightarrow> r = (int i + 1, EVAL_HEAP) \<or> r = (int i, EVAL_HEAP)"
      using jk(6) new(1) by auto
    moreover have "\<exists>r'. r = shift_ref i r'"
      using orig[OF jk(1,4), of r] orig[OF jk(2,5), of r] jk(3,6) by (cases "j = Suc (Suc i)") blast+
    ultimately have nn: "j \<noteq> Suc (Suc i)" "k \<noteq> Suc (Suc i)"
      using shift_ref_neq[of i] by metis+
    from orig[OF jk(1,4) nn(1)] jk(6) obtain l r1 where l: "l < length h" "e_op (h ! l) = WQL_OR"
      "j = (if l < i then l else Suc (Suc l))" "r = shift_ref i r1" "r1 \<in> set (refs (h ! l))" by blast
    from orig[OF jk(2,5) nn(2)] jk(6) obtain p r2 where p: "p < length h" "e_op (h ! p) = WQL_OR"
      "k = (if p < i then p else Suc (Suc p))" "r = shift_ref i r2" "r2 \<in> set (refs (h ! p))" by blast
    have "r1 = r2" using shift_ref_inj[of i r1 r2] l(4) p(4) by simp
    moreover have "l \<noteq> p" using jk(3) l(3) p(3) by auto
    moreover have "critical i h r1" using factored_critical[OF i ok[OF l(1,2,5)]] c l(4) by simp
    ultimately show False using u l p unfolding or_unique_def by blast
  qed
  ultimately show ?thesis unfolding or_unique_def by blast
qed

lemma fac_inv_factored:
  assumes inv: "fac_inv m i h R" and p: "factor_point m h i j s"
  shows "fac_inv m i (factor_heap i j s h) (shift_ref i R)"
proof -
  let ?h = "factor_heap i j s h"
  have i: "i < length h" "j < length h" and op: "e_op (h ! i) = WQL_AND" and ai: "active (h ! i)" "active (h ! j)"
    using p by (auto simp: factor_point_def active_def)
  note len = length_factored[OF i(1)] and nth = nth_factored[OF i(1)] and ok = factor_point_ok[OF p]
  have live: "live ?h (shift_ref i r)" if "ok_ref m k r" "live h r" "k \<le> length h" for k r
    using factored_live[OF i(1) ok_ref_mono[OF that(1,3)] that(2)] .
  have low: "live ?h r" if "ok_ref m i r" "live h r" for r
    using live[OF that] shift_ref_low[OF that(1)] i by simp
  have lv: "live h s" "live h (ref1 (h ! j))" "live h (ref2 (h ! j))"
    using fac_nodeD(6,7)[OF inv i(1) ai(1)] fac_nodeD(6,7)[OF inv i(2) ai(2)] p by (auto simp: factor_point_def)
  have "fac_node m ?h k (?h ! k)" if k: "k < length h + 2" "active (?h ! k)" for k
    using k(1) i(1)
  proof (cases rule: factored_cases)
    case below
    then have "fac_node m h k (h ! k)" using inv k i by (auto simp: fac_inv_def nth)
    then show ?thesis using below low ok_ref_mono[of m k _ i] by (auto simp: fac_node_def nth)
  next
    case (above l)
    then have "fac_node m h l (h ! l)" using inv k by (auto simp: fac_inv_def nth)
    then show ?thesis using above live[of l] shift_ref_ok[of m l _ i] by (auto simp: fac_node_def nth)
  next
    case new_or
    have "live ?h (int i, EVAL_HEAP)" "live ?h (int i + 1, EVAL_HEAP)"
      by (simp_all add: live_def active_def nth nat_add_distrib)
    then show ?thesis using new_or by (simp add: fac_node_def nth ok_ref_def)
  qed (use lv low ok ok_ref_mono[OF ok(1), of "Suc i"] ok_ref_mono[OF ok(2), of "Suc i"] in \<open>simp_all add: fac_node_def nth\<close>)
  moreover have "\<not> or_child ?h r" if "k < i" "e_op (?h ! k) = WQL_AND" "r \<in> set (refs (?h ! k))" for k r
  proof -
    have k: "e_op (h ! k) = WQL_AND" "r \<in> set (refs (h ! k))" "k < length h" using that i nth(1) by simp_all
    then have "ok_ref m k r" using fac_nodeD(3)[OF inv k(3)] by (simp add: active_def)
    then have "or_child ?h r = or_child h r" using that(1) by (auto simp: or_child_def ok_ref_def nth)
    then show ?thesis using inv k that(1) by (auto simp: fac_inv_def)
  qed
  moreover have "root_last ?h (shift_ref i R)"
  proof -
    from inv obtain k where k: "k < length h" "R = (int k, EVAL_HEAP)" "\<forall>l. k < l \<longrightarrow> l < length h \<longrightarrow> \<not> active (h ! l)"
      using i ai by (auto simp: fac_inv_def root_last_def)
    then have "i \<le> k" using i ai by (metis not_le)
    have "\<not> active (?h ! l)" if "Suc (Suc k) < l" "l < length h + 2" for l
      using nth(5)[of "l - 2" s] that k(3)[rule_format, of "l - 2"] \<open>i \<le> k\<close> by (simp add: Suc_diff_Suc numeral_2_eq_2)
    then show ?thesis using k \<open>i \<le> k\<close> len
      by (auto simp: root_last_def shift_ref_def intro!: exI[of _ "Suc (Suc k)"])
  qed
  moreover have "ok_ref m (length ?h) (shift_ref i R)" "live ?h (shift_ref i R)"
    using inv live[of "length h" R] shift_ref_ok[of m "length h" R i] len by (auto simp: fac_inv_def)
  ultimately show ?thesis
    using or_unique_factored[OF inv i(1) op] len by (auto simp: fac_inv_def)
qed

section \<open>The loop\<close>

text \<open>Both instances: the truth values, and the number of disjuncts.\<close>

interpretation bool_val: factor_val t "(\<and>)" "(\<or>)" for t
  by unfold_locales auto

interpretation count_val: factor_val t "(*)" "(+) :: nat \<Rightarrow> nat \<Rightarrow> nat" for t
  by unfold_locales (auto simp: algebra_simps)

abbreviation bsat :: "(nat \<Rightarrow> bool) \<Rightarrow> eval_el list \<Rightarrow> (nat \<Rightarrow> bool) \<Rightarrow> bool" where
  "bsat t \<equiv> gsat t (\<and>) (\<or>)"

abbreviation csat :: "eval_el list \<Rightarrow> (nat \<Rightarrow> nat) \<Rightarrow> bool" where
  "csat \<equiv> gsat (\<lambda>_. 1) (*) (+)"

lemma refv_gref: "ok_ref m k r \<Longrightarrow> refv tv ts f r = gref (\<lambda>k. tv (ts ! k)) f r"
  by (erule ok_ref_cases) simp_all

lemma sat_bsat:
  assumes "no_nots h" "fac_inv m i h R"
  shows "sat tv ts h f = bsat (\<lambda>k. tv (ts ! k)) h f"
proof -
  have "node_val tv ts f (h ! k) = gnode (\<lambda>k. tv (ts ! k)) (\<and>) (\<or>) f (h ! k)"
    if k: "k < length h" "active (h ! k)" for k
  proof -
    have "e_op (h ! k) = WQL_AND \<or> e_op (h ! k) = WQL_OR" "\<not> e_mark (h ! k)"
      using assms(1) k by (auto simp: no_nots_def)
    then show ?thesis
      using refv_gref[OF fac_nodeD(4)[OF assms(2) k], of tv ts f] refv_gref[OF fac_nodeD(5)[OF assms(2) k], of tv ts f]
      by (auto simp: node_val_def gnode_def)
  qed
  then show ?thesis by (simp add: sat_def gsat_def)
qed

lemma gref_cong: "ok_ref m k r \<Longrightarrow> (\<And>j. j < k \<Longrightarrow> f j = g j) \<Longrightarrow> gref t f r = gref t g r"
  by (auto simp: gref_def ok_ref_def)

lemma csat_exists:
  assumes "\<forall>k<length h. active (h ! k) \<longrightarrow> ok_ref m k (ref1 (h ! k)) \<and> ok_ref m k (ref2 (h ! k))"
  shows "\<exists>D. csat h D \<and> (\<forall>k. 0 < D k)"
  using assms
proof (induction h rule: rev_induct)
  case Nil
  show ?case by (auto simp: gsat_def intro: exI[of _ "\<lambda>_. 1"])
next
  case (snoc e h)
  have "ok_ref m k (ref1 (h ! k)) \<and> ok_ref m k (ref2 (h ! k))" if "k < length h" "active (h ! k)" for k
    using snoc.prems[rule_format, of k] that by (simp add: nth_append)
  with snoc.IH obtain D where D: "csat h D" "\<forall>k. 0 < D k" by blast
  define E where "E = D(length h := gnode (\<lambda>_. 1) (*) (+) D e)"
  have "gref (\<lambda>_. 1) D r > 0" for r using D(2) by (simp add: gref_def)
  then have pos: "\<forall>k. 0 < E k" using D(2) by (auto simp: E_def gnode_def)
  have "E k = gnode (\<lambda>_. 1) (*) (+) E ((h @ [e]) ! k)" if k: "k < length (h @ [e])" "active ((h @ [e]) ! k)" for k
  proof -
    have "gref (\<lambda>_. 1) E r = gref (\<lambda>_. 1) D r" if "ok_ref m k r" for r
      using gref_cong[OF that, of E D] k(1) by (simp add: E_def)
    then have "gnode (\<lambda>_. 1) (*) (+) E ((h @ [e]) ! k) = gnode (\<lambda>_. 1) (*) (+) D ((h @ [e]) ! k)"
      using snoc.prems[rule_format, OF k] by (simp add: gnode_def)
    moreover have "E k = gnode (\<lambda>_. 1) (*) (+) D ((h @ [e]) ! k)"
      using D(1) k by (cases "k = length h") (simp_all add: gsat_def E_def nth_append)
    ultimately show ?thesis by simp
  qed
  then show ?case using pos unfolding gsat_def by blast
qed

text \<open>The measure of the loop.\<close>

definition weight :: "eval_el list \<Rightarrow> (nat \<Rightarrow> nat) \<Rightarrow> nat \<Rightarrow> nat" where
  "weight h D k = (if e_op (h ! k) = WQL_AND then 3 * D k - 2 else 1)"

definition work :: "nat \<Rightarrow> eval_el list \<Rightarrow> (nat \<Rightarrow> nat) \<Rightarrow> nat" where
  "work i h D = (\<Sum>k = i..<length h. weight h D k)"

lemma work_next: "i < length h \<Longrightarrow> \<forall>k. 0 < D k \<Longrightarrow> work (Suc i) h D < work i h D"
  using gr0_implies_Suc[of "D i"] by (auto simp: work_def sum.atLeast_Suc_lessThan[of i] weight_def)

lemma work_factored:
  assumes p: "factor_point m h i j s" and D: "csat h D" "\<forall>k. 0 < D k"
  defines "a \<equiv> gref (\<lambda>_. 1) D s * gref (\<lambda>_. 1) D (ref1 (h ! j))"
    and "b \<equiv> gref (\<lambda>_. 1) D s * gref (\<lambda>_. 1) D (ref2 (h ! j))"
  shows "work i (factor_heap i j s h) (split_val i a b D) < work i h D"
proof -
  let ?h = "factor_heap i j s h" and ?D = "split_val i a b D"
  have i: "i < length h" "e_op (h ! i) = WQL_AND" using p by (simp_all add: factor_point_def)
  note nth = nth_factored[OF i(1)]
  have pos: "0 < a" "0 < b" using D(2) by (simp_all add: a_def b_def gref_def)
  have Di: "D i = a + b" using count_val.factor_value[OF p D(1)] by (simp add: a_def b_def)
  note e = sum.atLeast_Suc_lessThan[of _ "length h + 2" "weight ?h ?D"]
  have "work i ?h ?D = weight ?h ?D i + (weight ?h ?D (Suc i) + (weight ?h ?D (Suc (Suc i)) +
      (\<Sum>k = Suc (Suc (Suc i))..<length h + 2. weight ?h ?D k)))"
    using i e[of i] e[of "Suc i"] e[of "Suc (Suc i)"] by (simp add: work_def length_factored del: sum.op_ivl_Suc)
  also have "(\<Sum>k = Suc (Suc (Suc i))..<length h + 2. weight ?h ?D k) = (\<Sum>k = Suc i..<length h. weight ?h ?D (k + 2))"
    using sum.shift_bounds_nat_ivl[of "weight ?h ?D" "Suc i" 2 "length h"] by (simp add: numeral_2_eq_2)
  also have "\<dots> = (\<Sum>k = Suc i..<length h. weight h D k)"
    by (rule sum.cong) (simp_all add: weight_def nth)
  finally have "work i ?h ?D = (3 * b - 2) + (3 * a - 2) + 1 + (\<Sum>k = Suc i..<length h. weight h D k)"
    by (simp add: weight_def nth)
  moreover have "work i h D = 3 * (a + b) - 2 + (\<Sum>k = Suc i..<length h. weight h D k)"
    using i by (simp add: work_def sum.atLeast_Suc_lessThan[of i] weight_def Di)
  ultimately show ?thesis using pos by simp
qed

lemma factoring_loop_ok:
  assumes "fac_inv m i h R" "i \<le> length h" "bsat t h f" "csat h D" "\<forall>k. 0 < D k"
  shows "\<exists>h' R' f'. factoring_loop i (length h) h = Some (Inr h') \<and> fac_inv m (length h') h' R' \<and>
           bsat t h' f' \<and> gref t f' R' = gref t f R"
  using assms
proof (induction "work i h D" arbitrary: i h R f D rule: less_induct)
  case less
  show ?case
  proof (cases "i < length h")
    case False
    then have "factoring_loop i (length h) h = Some (Inr h)" "i = length h"
      using less.prems(2) by (simp_all add: factoring_loop.simps)
    then show ?thesis using less.prems(1,3) by blast
  next
    case True
    from fac_point[OF less.prems(1) True] show ?thesis
    proof (elim disjE exE conjE)
      assume "factor_at i h = Inr None" and n: "fac_inv m (Suc i) h R"
      then have "factoring_loop i (length h) h = factoring_loop (Suc i) (length h) h"
        using True by (subst factoring_loop.simps) simp
      then show ?thesis
        using less.hyps[OF work_next[OF True less.prems(5)] n _ less.prems(3-5)] True by simp
    next
      fix j s assume p: "factor_point m h i j s" and a: "factor_at i h = Inr (Some (factor_heap i j s h))"
      let ?h = "factor_heap i j s h"
      let ?D = "split_val i (gref (\<lambda>_. 1) D s * gref (\<lambda>_. 1) D (ref1 (h ! j))) (gref (\<lambda>_. 1) D s * gref (\<lambda>_. 1) D (ref2 (h ! j))) D"
      have "factoring_loop i (length h) h = factoring_loop i (length ?h) ?h"
        using True a by (subst factoring_loop.simps) (simp add: length_factored)
      moreover have "0 < gref (\<lambda>_. 1) D r" for r using less.prems(5) by (simp add: gref_def)
      then have "\<forall>k. 0 < ?D k" using less.prems(5) by (simp add: split_val_def)
      moreover have "gref t (split_val i a b f) (shift_ref i R) = gref t f R" for a b
        using less.prems(1) by (intro gref_split_val(2)[of m "length h"]) (simp add: fac_inv_def)
      ultimately show ?thesis
        using less.hyps[OF work_factored[OF p less.prems(4,5)] fac_inv_factored[OF less.prems(1) p] _
            bool_val.gsat_factored[OF p less.prems(3)] count_val.gsat_factored[OF p less.prems(4)]]
          True by (simp add: length_factored)
    qed
  qed
qed

lemma factoring_ok:
  assumes "tree (length (terminal_heap c)) (eval_heap c) R" "no_nots (eval_heap c)" "root_last (eval_heap c) R"
    and "sat tv (terminal_heap c) (eval_heap c) f"
  shows "\<exists>h R' f'. factoring c = Some (Inr (c\<lparr>eval_heap := h\<rparr>)) \<and>
     fac_inv (length (terminal_heap c)) (length h) h R' \<and> bsat (\<lambda>k. tv (terminal_heap c ! k)) h f' \<and>
     gref (\<lambda>k. tv (terminal_heap c ! k)) f' R' = refv tv (terminal_heap c) f R"
proof -
  note inv = fac_inv_start[OF assms(1-3)]
  have "\<exists>D. csat (eval_heap c) D \<and> (\<forall>k. 0 < D k)"
    using fac_nodeD(4,5)[OF inv] by (intro csat_exists) blast
  then obtain D where D: "csat (eval_heap c) D" "\<forall>k. 0 < D k" by blast
  have b: "bsat (\<lambda>k. tv (terminal_heap c ! k)) (eval_heap c) f"
    using assms(4) sat_bsat[OF assms(2) inv, of tv "terminal_heap c" f] by simp
  have "refv tv (terminal_heap c) f R = gref (\<lambda>k. tv (terminal_heap c ! k)) f R"
    by (rule refv_gref[OF treeD(1)[OF assms(1)]])
  with factoring_loop_ok[OF inv _ b D] obtain h R' f' where
    "factoring_loop 0 (length (eval_heap c)) (eval_heap c) = Some (Inr h)" "fac_inv (length (terminal_heap c)) (length h) h R'"
    "bsat (\<lambda>k. tv (terminal_heap c ! k)) h f'" "gref (\<lambda>k. tv (terminal_heap c ! k)) f' R' = refv tv (terminal_heap c) f R"
    by auto
  then show ?thesis by (intro exI[of _ h] exI[of _ R'] exI[of _ f']) (simp add: factoring_def)
qed

end
