(* ===== verification/WQL_Gather.thy ===== *)
theory WQL_Gather
  imports WQL_Factor
begin

text \<open>
  \<^verbatim>\<open>WQLCompile::_gatherDisj\<close> and \<^verbatim>\<open>_gatherConj\<close> on a heap without OR below AND: the first one lists operands
  whose disjunction is the root, the second one terminals whose conjunction is the operand.
\<close>

section \<open>The loop of \<open>_gather\<close>\<close>

text \<open>The measure of the loop over the stack entries from \<open>i\<close> on: an element outweighs its two operands.\<close>

definition ref_weight :: "ref \<Rightarrow> nat" where
  "ref_weight r = (if snd r = EVAL_HEAP then 3 ^ (nat (fst r) + 1) else 1)"

definition stack_weight :: "nat \<Rightarrow> ref list \<Rightarrow> nat" where
  "stack_weight i rs = sum_list (map ref_weight (drop i rs))"

definition expand :: "nat \<Rightarrow> eval_el \<Rightarrow> ref list \<Rightarrow> ref list" where
  "expand i e rs = take i rs @ [ref1 e, ref2 e] @ drop (Suc i) rs"

lemma stack_weight_skip: "i < length rs \<Longrightarrow> stack_weight (Suc i) rs < stack_weight i rs"
  by (simp add: stack_weight_def Cons_nth_drop_Suc[symmetric] ref_weight_def)

lemma ref_weight_less:
  assumes "ok_ref m k r"
  shows "ref_weight r \<le> 3 ^ k"
  using assms
proof (cases rule: ok_ref_cases)
  case (eval j)
  then have "(3::nat) ^ Suc j \<le> 3 ^ k" by (intro power_increasing) auto
  then show ?thesis using eval by (simp add: ref_weight_def)
qed (simp add: ref_weight_def)

lemma stack_weight_expand:
  assumes "i < length rs" "rs ! i = (int k, EVAL_HEAP)" "ok_ref m k (ref1 e)" "ok_ref m k (ref2 e)"
  shows "stack_weight i (expand i e rs) < stack_weight i rs"
proof -
  have "stack_weight i rs = ref_weight (rs ! i) + sum_list (map ref_weight (drop (Suc i) rs))"
    using assms(1) by (simp add: stack_weight_def Cons_nth_drop_Suc[symmetric])
  moreover have "stack_weight i (expand i e rs) =
      ref_weight (ref1 e) + ref_weight (ref2 e) + sum_list (map ref_weight (drop (Suc i) rs))"
    using assms(1) by (simp add: stack_weight_def expand_def)
  moreover have "ref_weight (rs ! i) = 3 * 3 ^ k" "0 < (3::nat) ^ k"
    by (simp_all add: ref_weight_def assms(2))
  ultimately show ?thesis
    using ref_weight_less[OF assms(3)] ref_weight_less[OF assms(4)] by linarith
qed

lemma expand_stk:
  "i < length rs \<Longrightarrow> arr_insert ((map stk_of rs)[i := getSecond e]) i (getFirst e) = map stk_of (expand i e rs)"
  by (simp add: arr_insert_def expand_def stk_of_refs upd_conv_take_nth_drop take_map drop_map)

lemma length_expand [simp]: "i < length rs \<Longrightarrow> length (expand i e rs) = Suc (length rs)"
  by (simp add: expand_def)

lemma set_expand:
  "i < length rs \<Longrightarrow> set (expand i e rs) = {ref1 e, ref2 e} \<union> set (take i rs) \<union> set (drop (Suc i) rs)"
  by (auto simp: expand_def)

lemma set_split_nth: "i < length rs \<Longrightarrow> set rs = {rs ! i} \<union> set (take i rs) \<union> set (drop (Suc i) rs)"
  by (metis Un_assoc Un_commute id_take_nth_drop insert_is_Un list.simps(15) set_append)

lemma gather_end: "length rs \<le> i \<Longrightarrow> gather_loop b i (map stk_of rs) h = Some (Inr (map stk_of rs, h))"
  by (subst gather_loop.simps) simp

lemma gather_skip:
  assumes "i < length rs"
    and "snd (rs ! i) = EVAL_HEAP \<Longrightarrow> \<exists>k<length h. rs ! i = (int k, EVAL_HEAP) \<and> e_op (h ! k) \<noteq> (if b then WQL_OR else WQL_AND)"
  shows "gather_loop b i (map stk_of rs) h = gather_loop b (Suc i) (map stk_of rs) h"
  using assms by (cases "snd (rs ! i) = EVAL_HEAP"; subst gather_loop.simps) auto

lemma gather_expand:
  assumes "i < length rs" "rs ! i = (int k, EVAL_HEAP)" "k < length h" "e_op (h ! k) = (if b then WQL_OR else WQL_AND)"
  shows "gather_loop b i (map stk_of rs) h =
     gather_loop b i (map stk_of (expand i (h ! k) rs)) (if b then h[k := (h ! k)\<lparr>e_op := WQL_DO_NOTHING\<rparr>] else h)"
  using assms by (subst gather_loop.simps) (simp add: expand_stk)

section \<open>Trailing elements\<close>

lemma strip_keeps:
  "k < length h \<Longrightarrow> active (h ! k) \<Longrightarrow> k < length (strip_do_nothing h) \<and> strip_do_nothing h ! k = h ! k"
proof (induction h rule: rev_induct)
  case (snoc e h)
  then show ?case
    by (cases "k = length h"; subst (1 2) strip_do_nothing.simps) (auto simp: nth_append active_def)
qed simp

lemma strip_last:
  "k < length h \<Longrightarrow> active (h ! k) \<Longrightarrow> (\<And>j. k < j \<Longrightarrow> j < length h \<Longrightarrow> \<not> active (h ! j)) \<Longrightarrow>
   strip_do_nothing h = take (Suc k) h"
proof (induction h rule: rev_induct)
  case (snoc e h)
  show ?case
  proof (cases "k = length h")
    case True
    then show ?thesis using snoc.prems(2) by (subst strip_do_nothing.simps) (simp add: active_def)
  next
    case False
    then have "strip_do_nothing h = take (Suc k) h"
      using snoc.prems(1,2) snoc.prems(3)[of "_ :: nat"]
      by (intro snoc.IH) (force simp: nth_append split: if_splits)+
    moreover have "\<not> active e" using snoc.prems(3)[of "length h"] snoc.prems(1) False by simp
    ultimately show ?thesis using False snoc.prems(1) by (subst strip_do_nothing.simps) (simp add: active_def)
  qed
qed simp

lemma strip_none: "(\<And>j. j < length h \<Longrightarrow> \<not> active (h ! j)) \<Longrightarrow> strip_do_nothing h = []"
proof (induction h rule: rev_induct)
  case (snoc e h)
  have "strip_do_nothing h = []"
    using snoc.prems by (intro snoc.IH) (metis butlast_snoc length_append_singleton less_SucI nth_butlast)
  moreover have "\<not> active e" using snoc.prems[of "length h"] by simp
  ultimately show ?case by (subst strip_do_nothing.simps) (simp add: active_def)
qed (simp add: strip_do_nothing.simps)

text \<open>The root of a heap is where its last active element is, and has the value every valuation gives it.\<close>

lemma heap_root_last: "root_last h R \<Longrightarrow> live h R \<Longrightarrow> heap_root h = R"
  unfolding root_last_def
proof (elim disjE exE conjE)
  fix k assume "k < length h" "R = (int k, EVAL_HEAP)" "\<forall>j>k. j < length h \<longrightarrow> \<not> active (h ! j)" "live h R"
  then show ?thesis using strip_last[of k h] by (auto simp: live_def heap_root_def Let_def)
qed (simp add: heap_root_def strip_none)

lemma heap_value_sat:
  assumes "\<And>k. k < length h \<Longrightarrow> active (h ! k) \<Longrightarrow> e_op (h ! k) \<in> {WQL_AND, WQL_OR, WQL_NOT} \<and>
      (\<forall>r\<in>set (refs (h ! k)). ok_ref (length ts) k r \<and> live h r)"
    and "root_last h R" "ok_ref (length ts) (length h) R" "live h R" "sat tv ts h f"
  shows "heap_value tv ts h = Some (refv tv ts f R)"
  unfolding heap_value_def heap_root_last[OF assms(2,4)]
  using heap_values_sat[OF assms(1,5), of "length h"] by (intro ref_value_sat[OF assms(3,4)]) simp_all

lemma tree_heap_value:
  assumes "tree (length ts) h R" "root_last h R" "sat tv ts h f"
  shows "heap_value tv ts h = Some (refv tv ts f R)"
  using treeD[OF assms(1)] by (intro heap_value_sat[OF _ assms(2) _ _ assms(3)]) (auto simp: tree_node_def)

lemma fac_heap_value:
  assumes "fac_inv (length ts) i h R" "bsat (\<lambda>k. tv (ts ! k)) h f"
  shows "heap_value tv ts h = Some (gref (\<lambda>k. tv (ts ! k)) f R)"
proof -
  have "no_nots h" using assms(1) by (auto simp: fac_inv_def fac_node_def no_nots_def)
  then have "sat tv ts h f" using sat_bsat[OF _ assms(1), of tv ts f] assms(2) by simp
  then have "heap_value tv ts h = Some (refv tv ts f R)"
    using assms(1) by (intro heap_value_sat) (auto simp: fac_inv_def fac_node_def)
  then show ?thesis using refv_gref[of "length ts" "length h" R tv ts f] assms(1) by (simp add: fac_inv_def)
qed

section \<open>Conjunctions\<close>

text \<open>
  \<open>and_heap m h g\<close>: \<open>g\<close> holds every AND of the factored heap \<open>h\<close>, whose operands are terminals and AND
  nodes.
\<close>

definition and_ref :: "nat \<Rightarrow> nat \<Rightarrow> eval_el list \<Rightarrow> ref \<Rightarrow> bool" where
  "and_ref m k h r \<longleftrightarrow> ok_ref m k r \<and> (snd r = EVAL_HEAP \<longrightarrow> e_op (h ! nat (fst r)) = WQL_AND)"

definition and_heap :: "nat \<Rightarrow> eval_el list \<Rightarrow> eval_el list \<Rightarrow> bool" where
  "and_heap m h g \<longleftrightarrow>
     (\<forall>k<length h. e_op (h ! k) = WQL_AND \<longrightarrow>
        k < length g \<and> g ! k = h ! k \<and> and_ref m k h (ref1 (h ! k)) \<and> and_ref m k h (ref2 (h ! k)))"

lemma and_ref_mono: "and_ref m k h r \<Longrightarrow> k \<le> n \<Longrightarrow> and_ref m n h r"
  by (auto simp: and_ref_def intro: ok_ref_mono)

lemma and_heap_strip: "and_heap m h g \<Longrightarrow> and_heap m h (strip_do_nothing g)"
  using strip_keeps[of _ g] by (auto simp: and_heap_def active_def)

lemma gather_conj_loop:
  assumes g: "and_heap m h g" and f: "bsat t h f"
    and "\<forall>r\<in>set rs. and_ref m (length h) h r" "\<forall>p<i. p < length rs \<longrightarrow> snd (rs ! p) = TERMINAL_HEAP"
  shows "\<exists>rs'. gather_loop False i (map stk_of rs) g = Some (Inr (map stk_of rs', g)) \<and>
     (\<forall>r\<in>set rs'. ok_ref m (length h) r \<and> snd r = TERMINAL_HEAP) \<and> (\<forall>r\<in>set rs'. gref t f r) = (\<forall>r\<in>set rs. gref t f r)"
  using assms(3,4)
proof (induction "stack_weight i rs" arbitrary: i rs rule: less_induct)
  case less
  show ?case
  proof (cases "i < length rs")
    case False
    then have "\<forall>r\<in>set rs. ok_ref m (length h) r \<and> snd r = TERMINAL_HEAP"
      using less.prems by (simp add: all_set_conv_all_nth and_ref_def)
    then show ?thesis using gather_end[of rs i False g] False by auto
  next
    case True
    then have "and_ref m (length h) h (rs ! i)" using less.prems(1) by simp
    then have ok: "ok_ref m (length h) (rs ! i)" and a: "snd (rs ! i) = EVAL_HEAP \<longrightarrow> e_op (h ! nat (fst (rs ! i))) = WQL_AND"
      by (simp_all add: and_ref_def)
    from ok show ?thesis
    proof (cases rule: ok_ref_cases)
      case (terminal j)
      then have "gather_loop False i (map stk_of rs) g = gather_loop False (Suc i) (map stk_of rs) g"
        using gather_skip[OF True] by simp
      then show ?thesis
        using less.hyps[OF stack_weight_skip[OF True] less.prems(1)] less.prems(2) terminal by (auto simp: less_Suc_eq)
    next
      case (eval k)
      let ?rs = "expand i (h ! k) rs"
      from eval a have op: "e_op (h ! k) = WQL_AND" by simp
      then have k: "k < length g" "g ! k = h ! k" "and_ref m k h (ref1 (h ! k))" "and_ref m k h (ref2 (h ! k))"
        using g eval(2) by (auto simp: and_heap_def)
      have "gather_loop False i (map stk_of rs) g = gather_loop False i (map stk_of ?rs) g"
        using gather_expand[OF True eval(1) k(1), of False] op k(2) by simp
      moreover have "f k = (gref t f (ref1 (h ! k)) \<and> gref t f (ref2 (h ! k)))"
        using f eval(2) op by (simp add: gsat_def gnode_def active_def)
      then have "(\<forall>r\<in>set ?rs. gref t f r) = (\<forall>r\<in>set rs. gref t f r)"
        using eval(1) by (auto simp: set_expand[OF True] set_split_nth[OF True])
      moreover have "\<forall>r\<in>set ?rs. and_ref m (length h) h r"
        using less.prems(1) k(3,4) and_ref_mono[of m k h _ "length h"] eval(2)
        by (auto simp: set_expand[OF True] set_split_nth[OF True])
      moreover have "\<forall>p<i. p < length ?rs \<longrightarrow> snd (?rs ! p) = TERMINAL_HEAP"
        using less.prems(2) True by (simp add: expand_def nth_append)
      moreover have "stack_weight i ?rs < stack_weight i rs"
        using k(3,4) by (intro stack_weight_expand[OF True eval(1)]) (auto simp: and_ref_def)
      ultimately show ?thesis using less.hyps[of i ?rs] by simp
    qed
  qed
qed

lemma gatherConj_ok:
  assumes g: "and_heap m h g" and f: "bsat t h f" and k: "k < length h" "e_op (h ! k) = WQL_AND"
  shows "\<exists>rs g'. gatherConj [] (stk_of (int k, EVAL_HEAP)) g = Some (Inr (map stk_of rs, g')) \<and> and_heap m h g' \<and>
     (\<forall>r\<in>set rs. ok_ref m (length h) r \<and> snd r = TERMINAL_HEAP) \<and> (\<forall>r\<in>set rs. gref t f r) = f k"
proof -
  note s = and_heap_strip[OF g]
  have "strip_do_nothing g \<noteq> []" using s k by (auto simp: and_heap_def)
  moreover have "\<forall>r\<in>set [(int k, EVAL_HEAP)]. and_ref m (length h) h r"
    using k by (simp add: and_ref_def ok_ref_def)
  ultimately show ?thesis
    using gather_conj_loop[OF s f, of "[(int k, EVAL_HEAP)]" 0] s
    by (simp add: gatherConj_def gather_def Let_def) blast
qed

section \<open>Disjunctions\<close>

text \<open>The part of the factored heap up to the root.\<close>

lemma fac_inv_take:
  assumes inv: "fac_inv m (length h) h R" and R: "R = (int k, EVAL_HEAP)"
  shows "fac_inv m (Suc k) (take (Suc k) h) R"
proof -
  let ?h = "take (Suc k) h"
  have k: "k < length h" "active (h ! k)" using inv R by (auto simp: fac_inv_def ok_ref_def live_def)
  have len: "length ?h = Suc k" using k by simp
  have nth: "?h ! j = h ! j" if "j < Suc k" for j using that by simp
  have live: "live ?h r = live h r" if "ok_ref m (Suc k) r" for r
    using that by (auto simp: live_def ok_ref_def)
  have orc: "or_child ?h r = or_child h r" "critical (Suc k) ?h r = critical (length h) h r" if "ok_ref m (Suc k) r" for r
    using that k by (auto simp: or_child_def critical_def ok_ref_def)
  have ok: "ok_ref m (Suc k) r" if "j < Suc k" "active (h ! j)" "r \<in> set (refs (h ! j))" for j r
    using fac_nodeD(3)[OF inv _ that(2,3)] that(1) k ok_ref_mono[of m j r "Suc k"] by auto
  have u: "or_unique (length h) h" using inv by (simp add: fac_inv_def)
  have "or_unique (Suc k) ?h"
    unfolding or_unique_def len
  proof (intro conjI allI impI ballI)
    fix j assume j: "j < Suc k" "e_op (?h ! j) = WQL_OR" "critical (Suc k) ?h (ref1 (?h ! j))"
    then have "critical (length h) h (ref1 (h ! j))" using orc(2) ok[of j "ref1 (h ! j)"] by (simp add: nth active_def)
    then show "ref1 (?h ! j) \<noteq> ref2 (?h ! j)" using u j k by (simp add: or_unique_def nth)
  next
    fix i j r assume "i < Suc k" "j < Suc k" "i \<noteq> j" "e_op (?h ! i) = WQL_OR" "e_op (?h ! j) = WQL_OR"
      "r \<in> set (refs (?h ! i)) \<inter> set (refs (?h ! j))"
    then have ij: "i < length h" "j < length h" "i \<noteq> j" "e_op (h ! i) = WQL_OR" "e_op (h ! j) = WQL_OR"
      "r \<in> set (refs (h ! i)) \<inter> set (refs (h ! j))" "i < Suc k" using k by (simp_all add: nth)
    then have "\<not> critical (length h) h r" using u unfolding or_unique_def by blast
    then show "\<not> critical (Suc k) ?h r" using orc(2) ok[of i r] ij by (simp add: active_def)
  qed
  moreover have "fac_node m ?h j (?h ! j)" if "j < Suc k" "active (h ! j)" for j
  proof -
    have "j < length h" using that(1) k by simp
    then show ?thesis using inv that live[OF ok[OF that]] by (simp add: fac_inv_def fac_node_def nth)
  qed
  moreover have "\<forall>r\<in>set (refs (h ! j)). \<not> or_child ?h r" if "j < Suc k" "e_op (h ! j) = WQL_AND" for j
  proof -
    have "j < length h" using that(1) k by simp
    then show ?thesis using inv that orc(1)[OF ok[OF that(1)]] by (simp add: fac_inv_def active_def)
  qed
  moreover have "root_last ?h R" "ok_ref m (Suc k) R" "live ?h R"
    using R k by (simp_all add: root_last_def ok_ref_def live_def)
  ultimately show ?thesis unfolding fac_inv_def len by (simp add: nth)
qed

lemma bsat_take: "bsat t h f \<Longrightarrow> bsat t (take n h) f"
  by (simp add: gsat_def)

text \<open>The elements in \<open>X\<close> have been expanded and are disconnected.\<close>

definition disc :: "nat set \<Rightarrow> nat \<Rightarrow> eval_el \<Rightarrow> eval_el" where
  "disc X k e = (if k \<in> X then e\<lparr>e_op := WQL_DO_NOTHING\<rparr> else e)"

definition disj_inv :: "nat \<Rightarrow> eval_el list \<Rightarrow> ref \<Rightarrow> nat set \<Rightarrow> ref list \<Rightarrow> bool" where
  "disj_inv m h R X rs \<longleftrightarrow>
     (\<forall>k\<in>X. k < length h \<and> e_op (h ! k) = WQL_OR) \<and>
     (\<forall>r\<in>set rs. ok_ref m (length h) r \<and> live h r) \<and>
     (\<forall>r\<in>set rs \<union> (\<lambda>k. (int k, EVAL_HEAP)) ` X. or_child h r \<longrightarrow> r = R \<or> (\<exists>k\<in>X. r \<in> set (refs (h ! k)))) \<and>
     (\<forall>r\<in>set rs. or_child h r \<longrightarrow> nat (fst r) \<notin> X) \<and>
     distinct (filter (or_child h) rs)"

text \<open>An OR below the OR at \<open>k\<close> belongs to \<open>k\<close> alone.\<close>

lemma or_child_fresh:
  assumes inv: "fac_inv m (Suc tp) h (int tp, EVAL_HEAP)" and len: "length h = Suc tp"
    and d: "disj_inv m h (int tp, EVAL_HEAP) X rs"
    and k: "k < length h" "e_op (h ! k) = WQL_OR" "k \<notin> X"
    and r: "r \<in> set (refs (h ! k))" "or_child h r"
  shows "r \<notin> set rs" "nat (fst r) \<notin> X"
proof -
  have "ok_ref m k r" using fac_nodeD(3)[OF inv k(1) _ r(1)] k(2) by (simp add: active_def)
  then obtain j where j: "r = (int j, EVAL_HEAP)" "j < k"
    using ok_ref_eval[of m k r] r(2) unfolding or_child_def by blast
  have "critical (Suc tp) h r" using r(2) by (simp add: critical_def or_child_def)
  moreover have u: "or_unique (Suc tp) h" using inv by (simp add: fac_inv_def)
  moreover have "l < length h \<and> e_op (h ! l) = WQL_OR \<and> l \<noteq> k" if "l \<in> X" for l
    using d that k(3) by (auto simp: disj_inv_def)
  ultimately have "r \<notin> set (refs (h ! l))" if "l \<in> X" for l
    using that k r(1) unfolding or_unique_def by blast
  moreover have "r \<noteq> (int tp, EVAL_HEAP)" using j k(1) len by simp
  ultimately have "r \<notin> set rs \<union> (\<lambda>k. (int k, EVAL_HEAP)) ` X"
    using d r(2) unfolding disj_inv_def by blast
  then show "r \<notin> set rs" "nat (fst r) \<notin> X" using j by auto
qed

lemma disj_inv_expand:
  assumes inv: "fac_inv m (Suc tp) h (int tp, EVAL_HEAP)" and len: "length h = Suc tp"
    and d: "disj_inv m h (int tp, EVAL_HEAP) X rs"
    and i: "i < length rs" "rs ! i = (int k, EVAL_HEAP)" and k: "k < length h" "e_op (h ! k) = WQL_OR"
  shows "disj_inv m h (int tp, EVAL_HEAP) (insert k X) (expand i (h ! k) rs)"
proof -
  let ?rs = "expand i (h ! k) rs" and ?R = "(int tp, EVAL_HEAP)" and ?K = "(int k, EVAL_HEAP)"
  from d have dX: "\<forall>k\<in>X. k < length h \<and> e_op (h ! k) = WQL_OR"
    and dok: "\<And>r. r \<in> set rs \<Longrightarrow> ok_ref m (length h) r \<and> live h r"
    and down: "\<And>r. r \<in> set rs \<union> (\<lambda>k. (int k, EVAL_HEAP)) ` X \<Longrightarrow> or_child h r \<Longrightarrow>
        r = ?R \<or> (\<exists>k\<in>X. r \<in> set (refs (h ! k)))"
    and dnot: "\<And>r. r \<in> set rs \<Longrightarrow> or_child h r \<Longrightarrow> nat (fst r) \<notin> X"
    and dist: "distinct (filter (or_child h) rs)"
    by (simp_all add: disj_inv_def)
  have orc: "or_child h ?K" using k by (simp add: or_child_def)
  have kin: "?K \<in> set rs" using nth_mem[OF i(1)] i(2) by simp
  have kX: "k \<notin> X" using dnot[OF kin orc] by simp
  have ak: "active (h ! k)" using k by (simp add: active_def)
  note D = fac_nodeD[OF inv k(1) ak] and fresh = or_child_fresh[OF inv len d k kX]
  have "take i rs @ ?K # drop (Suc i) rs = rs" using id_take_nth_drop[OF i(1), symmetric] unfolding i(2) .
  then have dist': "distinct (filter (or_child h) (take i rs @ ?K # drop (Suc i) rs))" using dist by (simp only:)
  have sub: "r \<in> set (refs (h ! k)) \<or> (r \<in> set rs \<and> r \<noteq> ?K \<or> \<not> or_child h r \<and> r \<in> set rs)" if "r \<in> set ?rs" for r
  proof -
    have "?K \<notin> set (take i rs) \<union> set (drop (Suc i) rs)" using dist' orc by auto
    then show ?thesis using that D(2) by (auto simp: set_expand[OF i(1)] set_split_nth[OF i(1)])
  qed
  have low: "ok_ref m (length h) r \<and> r \<noteq> ?K" if "r \<in> set (refs (h ! k))" for r
    using D(3)[OF that] k(1) by (auto simp: ok_ref_def)
  let ?F = "filter (or_child h)"
  have "ref1 (h ! k) \<noteq> ref2 (h ! k)" if "or_child h (ref1 (h ! k))"
    using inv k that by (auto simp: fac_inv_def or_unique_def critical_def or_child_def len)
  then have "distinct (?F (refs (h ! k)))" by (simp add: D(2))
  moreover have "r \<notin> set (take i rs) \<and> r \<notin> set (drop (Suc i) rs)" if "r \<in> set (refs (h ! k))" "or_child h r" for r
    using fresh(1)[OF that] in_set_takeD[of r i rs] in_set_dropD[of r "Suc i" rs] by blast
  then have "set (?F (refs (h ! k))) \<inter> set (?F (take i rs)) = {}" "set (?F (refs (h ! k))) \<inter> set (?F (drop (Suc i) rs)) = {}"
    by fastforce+
  moreover have "distinct (?F (take i rs))" "distinct (?F (drop (Suc i) rs))"
    "set (?F (take i rs)) \<inter> set (?F (drop (Suc i) rs)) = {}"
    using dist' orc by auto
  moreover have "?F ?rs = ?F (take i rs) @ ?F (refs (h ! k)) @ ?F (drop (Suc i) rs)" by (simp add: expand_def D(2))
  ultimately have "distinct (?F ?rs)" by (simp only: distinct_append set_append) blast
  moreover have "ok_ref m (length h) r \<and> live h r" if "r \<in> set ?rs" for r
    using sub[OF that] dok low D(3) by blast
  moreover have "nat (fst r) \<notin> insert k X" if r: "r \<in> set ?rs" "or_child h r" for r
  proof -
    have "r \<noteq> ?K" "ok_ref m (length h) r" using sub[OF r(1)] low dok r(2) by blast+
    then have "nat (fst r) \<noteq> k" using ok_ref_eval[of m "length h" r] r(2) by (auto simp: or_child_def)
    moreover have "nat (fst r) \<notin> X" using sub[OF r(1)] fresh(2)[of r] dnot[of r] r(2) by blast
    ultimately show ?thesis by simp
  qed
  moreover have "r = ?R \<or> (\<exists>l\<in>insert k X. r \<in> set (refs (h ! l)))"
    if r: "r \<in> set ?rs \<union> (\<lambda>k. (int k, EVAL_HEAP)) ` insert k X" "or_child h r" for r
    using r(1) sub[of r] kin down[of r] r(2) by blast
  ultimately show ?thesis using dX k unfolding disj_inv_def by blast
qed

lemma disc_insert:
  "k \<notin> X \<Longrightarrow> k < length h \<Longrightarrow> (upd_nth (disc X) h)[k := (h ! k)\<lparr>e_op := WQL_DO_NOTHING\<rparr>] = upd_nth (disc (insert k X)) h"
  by (intro upd_nth_eqI) (auto simp: disc_def nth_list_update)

lemma gather_disj_loop:
  assumes inv: "fac_inv m (Suc tp) h (int tp, EVAL_HEAP)" and len: "length h = Suc tp" and f: "bsat t h f"
    and "disj_inv m h (int tp, EVAL_HEAP) X rs" "\<forall>p<i. p < length rs \<longrightarrow> \<not> or_child h (rs ! p)"
  shows "\<exists>rs' X'. gather_loop True i (map stk_of rs) (upd_nth (disc X) h) = Some (Inr (map stk_of rs', upd_nth (disc X') h)) \<and>
     disj_inv m h (int tp, EVAL_HEAP) X' rs' \<and> length rs \<le> length rs' \<and> (\<forall>r\<in>set rs'. \<not> or_child h r) \<and>
     (\<exists>r\<in>set rs'. gref t f r) = (\<exists>r\<in>set rs. gref t f r)"
  using assms(4,5)
proof (induction "stack_weight i rs" arbitrary: i X rs rule: less_induct)
  case less
  let ?g = "upd_nth (disc X) h"
  show ?case
  proof (cases "i < length rs")
    case False
    then have "\<forall>r\<in>set rs. \<not> or_child h r" using less.prems(2) by (simp add: all_set_conv_all_nth)
    then show ?thesis using gather_end[of rs i True ?g] False less.prems(1) by auto
  next
    case True
    have ok: "ok_ref m (length h) (rs ! i)" using less.prems(1) True by (simp add: disj_inv_def)
    show ?thesis
    proof (cases "or_child h (rs ! i)")
      case False
      have "\<exists>k<length ?g. rs ! i = (int k, EVAL_HEAP) \<and> e_op (?g ! k) \<noteq> WQL_OR" if "snd (rs ! i) = EVAL_HEAP"
        using ok_ref_eval[OF ok that] False that by (intro exI[of _ "nat (fst (rs ! i))"]) (auto simp: or_child_def disc_def)
      then have "gather_loop True i (map stk_of rs) ?g = gather_loop True (Suc i) (map stk_of rs) ?g"
        using gather_skip[OF True] by simp
      then show ?thesis
        using less.hyps[OF stack_weight_skip[OF True] less.prems(1)] less.prems(2) False by (auto simp: less_Suc_eq)
    next
      case o: True
      then obtain k where k: "rs ! i = (int k, EVAL_HEAP)" "k < length h" "e_op (h ! k) = WQL_OR"
        using ok_ref_eval[OF ok] by (metis or_child_def)
      let ?rs = "expand i (h ! k) rs"
      have kX: "k \<notin> X"
        using less.prems(1) o k(1) nth_mem[OF True] by (auto simp: disj_inv_def)
      have ak: "active (h ! k)" using k by (simp add: active_def)
      note D = fac_nodeD[OF inv k(2) ak]
      have "gather_loop True i (map stk_of rs) ?g = gather_loop True i (map stk_of ?rs) (upd_nth (disc (insert k X)) h)"
        using gather_expand[OF True k(1), of ?g True] k kX by (simp add: disc_def disc_insert)
      moreover have "f k = (gref t f (ref1 (h ! k)) \<or> gref t f (ref2 (h ! k)))"
        using f k ak by (simp add: gsat_def gnode_def)
      then have "(\<exists>r\<in>set ?rs. gref t f r) = (\<exists>r\<in>set rs. gref t f r)"
        using k(1) by (auto simp: set_expand[OF True] set_split_nth[OF True])
      moreover have "\<forall>p<i. p < length ?rs \<longrightarrow> \<not> or_child h (?rs ! p)"
        using less.prems(2) True by (simp add: expand_def nth_append)
      moreover have "stack_weight i ?rs < stack_weight i rs"
        using stack_weight_expand[OF True k(1) D(4,5)] .
      ultimately show ?thesis
        using less.hyps[of i ?rs "insert k X"] disj_inv_expand[OF inv len less.prems(1) True k] True
        by (simp, meson Suc_leD)
    qed
  qed
qed

lemma and_heap_disc:
  assumes inv: "fac_inv m (length h) h R" and "\<forall>k\<in>X. e_op (h ! k) = WQL_OR"
  shows "and_heap m h (upd_nth (disc X) h)"
proof -
  have "and_ref m k h r" if k: "k < length h" "e_op (h ! k) = WQL_AND" and r: "r \<in> set (refs (h ! k))" for k r
  proof -
    have ak: "active (h ! k)" using k by (simp add: active_def)
    have 1: "ok_ref m k r" "live h r" using fac_nodeD(3)[OF inv k(1) ak r] by simp_all
    have "\<not> or_child h r" using inv k r by (auto simp: fac_inv_def)
    then have "e_op (h ! nat (fst r)) = WQL_AND" if "snd r = EVAL_HEAP"
      using fac_nodeD(1)[OF inv, of "nat (fst r)"] ok_ref_eval[OF 1(1) that] 1(2) k(1) that by (auto simp: live_def or_child_def)
    then show ?thesis using 1(1) by (simp add: and_ref_def)
  qed
  moreover have "refs (h ! k) = [ref1 (h ! k), ref2 (h ! k)]" if "k < length h" "e_op (h ! k) = WQL_AND" for k
    using that by (simp add: refs_def unary_def)
  ultimately show ?thesis using assms(2) by (auto simp: and_heap_def disc_def)
qed

lemma gatherDisj_ok:
  assumes inv: "fac_inv m (length h) h R" and f: "bsat t h f" and R: "snd R = EVAL_HEAP"
  shows "\<exists>rs h0 g. gatherDisj [] h = Some (Inr (map stk_of rs, g)) \<and> and_heap m h0 g \<and> bsat t h0 f \<and> rs \<noteq> [] \<and>
     (\<forall>r\<in>set rs. and_ref m (length h0) h0 r) \<and> (\<exists>r\<in>set rs. gref t f r) = gref t f R"
proof -
  obtain tp where tp: "R = (int tp, EVAL_HEAP)" "tp < length h" "active (h ! tp)"
      "\<And>j. tp < j \<Longrightarrow> j < length h \<Longrightarrow> \<not> active (h ! j)"
    using inv R by (auto simp: fac_inv_def root_last_def live_def)
  let ?h = "take (Suc tp) h"
  have len: "length ?h = Suc tp" using tp(2) by simp
  have inv': "fac_inv m (Suc tp) ?h (int tp, EVAL_HEAP)" using fac_inv_take[OF inv tp(1)] tp(1) by simp
  have d0: "disj_inv m ?h (int tp, EVAL_HEAP) {} [(int tp, EVAL_HEAP)]"
    using tp(2,3) by (simp add: disj_inv_def ok_ref_def live_def)
  have e0: "upd_nth (disc {}) ?h = ?h" by (intro upd_nth_eqI[symmetric]) (auto simp: disc_def)
  obtain rs X where g: "gather_loop True 0 (map stk_of [(int tp, EVAL_HEAP)]) ?h = Some (Inr (map stk_of rs, upd_nth (disc X) ?h))"
    and d: "disj_inv m ?h (int tp, EVAL_HEAP) X rs" and no: "\<forall>r\<in>set rs. \<not> or_child ?h r"
    and l: "length [(int tp, EVAL_HEAP)] \<le> length rs"
    and v: "(\<exists>r\<in>set rs. gref t f r) = (\<exists>r\<in>set [(int tp, EVAL_HEAP)]. gref t f r)"
    using gather_disj_loop[OF inv' len bsat_take[OF f] d0, of 0] unfolding e0 by blast
  from l have ne: "rs \<noteq> []" by auto
  have "and_ref m (length ?h) ?h r" if r: "r \<in> set rs" for r
  proof -
    have 1: "ok_ref m (length ?h) r" "live ?h r" using d r by (simp_all add: disj_inv_def)
    have "e_op (?h ! nat (fst r)) = WQL_AND" if "snd r = EVAL_HEAP"
      using fac_nodeD(1)[OF inv', of "nat (fst r)"] ok_ref_eval[OF 1(1) that] 1(2) no r that
      by (auto simp: live_def or_child_def)
    then show ?thesis using 1(1) by (simp add: and_ref_def)
  qed
  moreover have "and_heap m ?h (upd_nth (disc X) ?h)"
    using inv' len d by (intro and_heap_disc) (auto simp: disj_inv_def)
  moreover have "gatherDisj [] h = Some (Inr (map stk_of rs, upd_nth (disc X) ?h))"
    using g strip_last[OF tp(2-4)] tp(2) by (auto simp: gatherDisj_def gather_def stk_of_def Let_def)
  moreover have "(\<exists>r\<in>set rs. gref t f r) = gref t f R" using v tp(1) by simp
  ultimately show ?thesis using bsat_take[OF f, of "Suc tp"] ne by blast
qed

section \<open>The rows\<close>

lemma row_of_terms:
  assumes "\<forall>r\<in>set rs. ok_ref (length ts) n r \<and> snd r = TERMINAL_HEAP"
  shows "row_of ts (map stk_of rs) = Inr (map (\<lambda>r. ts ! nat (fst r)) rs)"
  unfolding row_of_def using assms
proof (induction rs)
  case (Cons r rs)
  then have "arr_get ts (fst r) = Inr (ts ! nat (fst r))" by (intro arr_get_in) (auto simp: ok_ref_def)
  then show ?case using Cons by simp
qed simp

lemma row_value:
  assumes "\<forall>r\<in>set rs. ok_ref (length ts) n r \<and> snd r = TERMINAL_HEAP"
  shows "(\<forall>x\<in>set (map (\<lambda>r. ts ! nat (fst r)) rs). tv x) = (\<forall>r\<in>set rs. gref (\<lambda>k. tv (ts ! k)) f r)"
    and "set (map (\<lambda>r. ts ! nat (fst r)) rs) \<subseteq> set ts"
  using assms by (auto simp: gref_def ok_ref_def)

lemma compile_rows_ok:
  assumes f: "bsat (\<lambda>k. tv (ts ! k)) h f"
    and "and_heap (length ts) h g" "\<forall>r\<in>set rs. and_ref (length ts) (length h) h r"
  shows "\<exists>rows. compile_rows ts (map stk_of rs) g = Some (Inr rows) \<and> length rows = length rs \<and>
     (\<forall>row\<in>set rows. set row \<subseteq> set ts) \<and>
     (\<exists>row\<in>set rows. \<forall>x\<in>set row. tv x) = (\<exists>r\<in>set rs. gref (\<lambda>k. tv (ts ! k)) f r)"
  using assms(2,3)
proof (induction rs arbitrary: g)
  case (Cons r rs)
  let ?t = "\<lambda>k. tv (ts ! k)"
  have r: "and_ref (length ts) (length h) h r" using Cons.prems by simp
  then have ok: "ok_ref (length ts) (length h) r" by (simp add: and_ref_def)
  from ok show ?case
  proof (cases rule: ok_ref_cases)
    case (terminal j)
    then have 1: "\<forall>x\<in>set [r]. ok_ref (length ts) (length h) x \<and> snd x = TERMINAL_HEAP" using ok by simp
    from Cons.IH[OF Cons.prems(1)] Cons.prems(2) obtain rows where
      "compile_rows ts (map stk_of rs) g = Some (Inr rows)" "length rows = length rs" "\<forall>row\<in>set rows. set row \<subseteq> set ts"
      "(\<exists>row\<in>set rows. \<forall>x\<in>set row. tv x) = (\<exists>r\<in>set rs. gref ?t f r)" by auto
    then show ?thesis
      using row_of_terms[OF 1] row_value(1)[OF 1, of tv f] row_value(2)[OF 1] terminal by (simp add: mk_stack_def)
  next
    case (eval k)
    then have "e_op (h ! k) = WQL_AND" using r by (simp add: and_ref_def)
    from gatherConj_ok[OF Cons.prems(1) f eval(2) this] obtain cs g' where
      c: "gatherConj [] (stk_of r) g = Some (Inr (map stk_of cs, g'))" "and_heap (length ts) h g'"
         "\<forall>r\<in>set cs. ok_ref (length ts) (length h) r \<and> snd r = TERMINAL_HEAP" "(\<forall>r\<in>set cs. gref ?t f r) = f k"
      unfolding eval(1) by blast
    from Cons.IH[OF c(2)] Cons.prems(2) obtain rows where
      "compile_rows ts (map stk_of rs) g' = Some (Inr rows)" "length rows = length rs" "\<forall>row\<in>set rows. set row \<subseteq> set ts"
      "(\<exists>row\<in>set rows. \<forall>x\<in>set row. tv x) = (\<exists>r\<in>set rs. gref ?t f r)" by auto
    then show ?thesis
      using row_of_terms[OF c(3)] row_value(1)[OF c(3), of tv f] row_value(2)[OF c(3)] c(1,4) eval(1) by simp
  qed
qed simp

end
