(* ===== verification/WQL_Correct.thy ===== *)
theory WQL_Correct
  imports WQL_Gather "HOL-Library.Multiset"
begin

text \<open>
  The rows of the tableau and their evaluation, and the correctness of \<^verbatim>\<open>WQLCompile::compile\<close> followed by
  \<^verbatim>\<open>WQLCompile::evaluate\<close>: the answer is the two-valued meaning of the where clause.
\<close>

section \<open>Sorting a row\<close>

text \<open>What the evaluation reads of a terminal. \<^verbatim>\<open>_sortTableau\<close> exchanges just these fields.\<close>

definition core :: "'r term_el \<Rightarrow> WQLOperation \<times> 'r WQLOperand \<times> 'r WQLOperand" where
  "core t = (t_op t, t_opn1 t, t_opn2 t)"

lemma core_mk_term [simp]: "core (mk_term op l r) = (op, l, r)"
  by (simp add: core_def mk_term_def)

lemma length_swap_terms [simp]: "length (swap_terms j k tr) = length tr"
  by (simp add: swap_terms_def Let_def)

lemma core_swap_terms:
  assumes "j < length tr" "k < length tr"
  shows "map core (swap_terms j k tr) = (map core tr)[j := core (tr ! k), k := core (tr ! j)]"
proof (rule nth_equalityI)
  fix l assume "l < length (map core (swap_terms j k tr))"
  then show "map core (swap_terms j k tr) ! l = (map core tr)[j := core (tr ! k), k := core (tr ! j)] ! l"
    using assms by (auto simp: swap_terms_def Let_def core_def nth_list_update)
qed simp

lemma mset_swap_terms:
  "j < length tr \<Longrightarrow> k < length tr \<Longrightarrow> mset (map core (swap_terms j k tr)) = mset (map core tr)"
  using mset_swap[of k "map core tr" j] by (simp add: core_swap_terms)

lemma sort_round_core:
  "set ks \<subseteq> {..<length tr} \<Longrightarrow> j < length tr \<Longrightarrow>
   length (fold (\<lambda>k tr. if s_lt X (row_key (tr ! k)) key then swap_terms j k tr else tr) ks tr) = length tr \<and>
   mset (map core (fold (\<lambda>k tr. if s_lt X (row_key (tr ! k)) key then swap_terms j k tr else tr) ks tr)) = mset (map core tr)"
proof (induction ks arbitrary: tr)
  case (Cons k ks)
  let ?tr = "if s_lt X (row_key (tr ! k)) key then swap_terms j k tr else tr"
  have "mset (map core ?tr) = mset (map core tr)" "length ?tr = length tr"
    using Cons.prems mset_swap_terms[of j tr k] by simp_all
  then show ?case using Cons.IH[of ?tr] Cons.prems by (simp only: fold_simps comp_def) auto
qed simp

text \<open>\<open>_sortTableau\<close> permutes the comparisons of a row.\<close>

lemma sort_row_core: "mset (map core (sort_row X tr)) = mset (map core tr)"
proof -
  let ?round = "\<lambda>j tr. let key1 = row_key (tr ! j) in
      fold (\<lambda>k tr. if s_lt X (row_key (tr ! k)) key1 then swap_terms j k tr else tr) [j..<length tr] tr"
  have "length (fold ?round js tr) = length tr \<and> mset (map core (fold ?round js tr)) = mset (map core tr)"
    if "set js \<subseteq> {..<length tr}" for js tr
    using that
  proof (induction js arbitrary: tr)
    case (Cons j js)
    have "set [j..<length tr] \<subseteq> {..<length tr}" "j < length tr" using Cons.prems by auto
    from sort_round_core[OF this, of X "row_key (tr ! j)"]
    have "length (?round j tr) = length tr" "mset (map core (?round j tr)) = mset (map core tr)" by (simp_all add: Let_def)
    then show ?case using Cons.IH[of "?round j tr"] Cons.prems by (simp only: fold_simps comp_def) auto
  qed simp
  from this[of "[0..<length tr]" tr] show ?thesis by (simp add: sort_row_def atLeast0LessThan)
qed

lemma set_unique_run: "set (unique_run eq xs) \<subseteq> set xs"
  by (induction eq xs rule: unique_run.induct) (auto split: if_splits)

lemma unique_run_core:
  "(\<And>x y. x \<in> set xs \<Longrightarrow> y \<in> set xs \<Longrightarrow> eq x y \<Longrightarrow> g x = g y) \<Longrightarrow> g ` set (unique_run eq xs) = g ` set xs"
proof (induction eq xs rule: unique_run.induct)
  case (1 eq x y xs)
  show ?case
  proof (cases "eq x y")
    case True
    then have "g ` set (unique_run eq (x # xs)) = g ` set (x # xs)" using 1 by auto
    moreover have "g x = g y" using 1(3) True by simp
    ultimately show ?thesis using True by auto
  next
    case False
    then have "g ` set (unique_run eq (y # xs)) = g ` set (y # xs)" using 1 by auto
    then show ?thesis using False by simp
  qed
qed simp_all

lemma hd_unique_run [simp]: "unique_run eq xs = [] \<longleftrightarrow> xs = []" "hd (unique_run eq xs) = hd xs"
  by (induction eq xs rule: unique_run.induct) auto

lemma successively_unique_run: "successively (\<lambda>x y. \<not> eq x y) (unique_run eq xs)"
  by (induction eq xs rule: unique_run.induct) (auto simp: successively_Cons)

text \<open>Every comparison of the row \<^verbatim>\<open>_sortTableau\<close> leaves has a property name on the left, if it has one.\<close>

lemma sort_tableau_row_left:
  assumes "t \<in> set (sort_tableau_row X tr)" "is_prop (t_opn2 t)"
  shows "is_prop (t_opn1 t)"
proof -
  have "core ` set (sort_row X (map turn_term tr)) = core ` set (map turn_term tr)"
    using arg_cong[OF sort_row_core[of X "map turn_term tr"], of set_mset] by (simp add: image_image)
  moreover have "core t \<in> core ` set (sort_row X (map turn_term tr))"
    using assms(1) set_unique_run unfolding sort_tableau_row_def by fast
  ultimately obtain s where "s \<in> set tr" "core t = core (turn_term s)" by auto
  then show ?thesis using assms(2) by (auto simp: core_def turn_term_def split: if_splits)
qed

section \<open>Well-behaved tests\<close>

text \<open>
  A comparison whose operands resolve to values, with doubles that are neither NaN nor negative
  zero; or an ISA test that the source answers.
\<close>

definition compares :: "('r \<Rightarrow> bool) \<Rightarrow> 'r property_source \<Rightarrow> WQLOperation \<Rightarrow> 'r WQLOperand \<Rightarrow> 'r WQLOperand \<Rightarrow> bool" where
  "compares nz src op l r \<longleftrightarrow>
     comparison op \<and> (\<exists>x y. ResolveProperty src l = Inr x \<and> ResolveProperty src r = Inr y \<and>
       is_value x \<and> is_value y \<and> operand_nz nz x \<and> operand_nz nz y)"

definition test_ok :: "'r ext \<Rightarrow> ('r \<Rightarrow> bool) \<Rightarrow> 'r property_source \<Rightarrow> WQLOperation \<Rightarrow> 'r WQLOperand \<Rightarrow> 'r WQLOperand \<Rightarrow> bool" where
  "test_ok X nz src op l r \<longleftrightarrow>
     compares nz src op l r \<or> (op = WQL_ISA \<and> (\<exists>b. eval_term X src (mk_term op l r) = Inr b))"

text \<open>A comparison that a NOT may reach: no ordering with a null.\<close>

definition negatable_test :: "('r \<Rightarrow> bool) \<Rightarrow> 'r property_source \<Rightarrow> WQLOperation \<Rightarrow> 'r WQLOperand \<Rightarrow> 'r WQLOperand \<Rightarrow> bool" where
  "negatable_test nz src op l r \<longleftrightarrow>
     compares nz src op l r \<and>
     (\<forall>x y. ResolveProperty src l = Inr x \<longrightarrow> ResolveProperty src r = Inr y \<longrightarrow> negatable op x y)"

definition test_value :: "'r ext \<Rightarrow> 'r property_source \<Rightarrow> WQLOperation \<Rightarrow> 'r WQLOperand \<Rightarrow> 'r WQLOperand \<Rightarrow> bool" where
  "test_value X src op l r \<longleftrightarrow> eval_term X src (mk_term op l r) = Inr True"

abbreviation on_core :: "(WQLOperation \<Rightarrow> 'r WQLOperand \<Rightarrow> 'r WQLOperand \<Rightarrow> bool) \<Rightarrow> 'r term_el \<Rightarrow> bool" where
  "on_core p t \<equiv> p (t_op t) (t_opn1 t) (t_opn2 t)"

lemma eval_term_core: "core t = core u \<Longrightarrow> eval_term X src t = eval_term X src u"
  by (simp add: core_def eval_term_def cong: WQLOperand.case_cong)

lemma test_value_core: "on_core (test_value X src) t \<longleftrightarrow> eval_term X src t = Inr True"
  using eval_term_core[of t "mk_term (t_op t) (t_opn1 t) (t_opn2 t)" X src]
  by (simp add: test_value_def core_def mk_term_def)

lemma eval_term_compare:
  assumes "comparison (t_op t)" "ResolveProperty src (t_opn1 t) = Inr x" "ResolveProperty src (t_opn2 t) = Inr y"
  shows "eval_term X src t = Evaluate X x y (t_op t)"
  using assms by (auto simp: eval_term_def comparison_def)

lemma eval_test_ok:
  assumes "on_core (test_ok X nz src) t"
  shows "eval_term X src t = Inr (on_core (test_value X src) t)"
proof -
  have "\<exists>b. eval_term X src t = Inr b"
    using assms eval_term_core[of t "mk_term (t_op t) (t_opn1 t) (t_opn2 t)" X src]
      eval_term_compare[of t src _ _ X] Evaluate_defined[of _ _ "t_op t" X]
    by (fastforce simp: test_ok_def compares_def core_def mk_term_def)
  then show ?thesis unfolding test_value_core by auto
qed

lemma negate_sel [simp]: "t_op (negate t) = negate_op (t_op t)" "t_opn1 (negate t) = t_opn1 t" "t_opn2 (negate t) = t_opn2 t"
  by (simp_all add: negate_def)

lemma neg_closed_tests:
  assumes "ext_ok nz X"
  shows "neg_closed (on_core (test_value X src)) (on_core (test_ok X nz src)) (on_core (negatable_test nz src))"
  unfolding neg_closed_def
proof (intro allI impI)
  fix t assume q: "on_core (negatable_test nz src) t"
  then obtain x y where xy: "comparison (t_op t)" "ResolveProperty src (t_opn1 t) = Inr x" "ResolveProperty src (t_opn2 t) = Inr y"
      "is_value x" "is_value y" "operand_nz nz x" "operand_nz nz y" "negatable (t_op t) x y"
    by (auto simp: negatable_test_def compares_def)
  then have c: "on_core (compares nz src) (negate t)" by (auto simp: compares_def)
  have "eval_term X src t = Inr (on_core (test_value X src) t)"
    using eval_test_ok[of X nz src t] q by (auto simp: negatable_test_def test_ok_def)
  then have "Evaluate X x y (t_op t) = Inr (on_core (test_value X src) t)" using eval_term_compare[OF xy(1-3), of X] by simp
  from Evaluate_negate[OF assms xy(6-8) this] have "eval_term X src (negate t) = Inr (\<not> on_core (test_value X src) t)"
    using eval_term_compare[of "negate t" src x y X] xy by simp
  moreover have "negatable (negate_op (t_op t)) x y" using xy(8) by (cases "t_op t") (auto simp: negatable_def comparison_def)
  ultimately show "on_core (test_value X src) (negate t) = (\<not> on_core (test_value X src) t) \<and>
      on_core (negatable_test nz src) (negate t) \<and> on_core (test_ok X nz src) (negate t)"
    using c xy(2,3) test_value_core[of X src "negate t"] by (auto simp: negatable_test_def test_ok_def)
qed

text \<open>Moving the property name to the left keeps the test and its answer.\<close>

lemma turn_term_ok:
  assumes "ext_ok nz X" "on_core (test_ok X nz src) t"
  shows "on_core (test_ok X nz src) (turn_term t)"
    and "on_core (test_value X src) (turn_term t) = on_core (test_value X src) t"
proof -
  have "on_core (test_ok X nz src) (turn_term t) \<and> eval_term X src (turn_term t) = eval_term X src t"
  proof (cases "is_prop (t_opn2 t) \<and> \<not> is_prop (t_opn1 t)")
    case False
    then have "turn_term t = t" unfolding turn_term_def by (rule if_not_P)
    then show ?thesis using assms(2) by simp
  next
    case True
    then have u: "t_op (turn_term t) = turn_op (t_op t)" "t_opn1 (turn_term t) = t_opn2 t" "t_opn2 (turn_term t) = t_opn1 t"
      by (simp_all add: turn_term_def)
    have "t_op t \<noteq> WQL_ISA \<or> \<not> (\<exists>b. eval_term X src t = Inr b)"
      using True by (cases "t_opn1 t") (auto simp: eval_term_def is_prop_def)
    then have "on_core (compares nz src) t"
      using assms(2) eval_test_ok[OF assms(2)] by (auto simp: test_ok_def)
    then obtain x y where xy: "comparison (t_op t)" "ResolveProperty src (t_opn1 t) = Inr x" "ResolveProperty src (t_opn2 t) = Inr y"
      "is_value x" "is_value y" "operand_nz nz x" "operand_nz nz y" by (auto simp: compares_def)
    then have "on_core (test_ok X nz src) (turn_term t)" by (auto simp: u test_ok_def compares_def)
    moreover have "eval_term X src (turn_term t) = Evaluate X y x (turn_op (t_op t))"
      using eval_term_compare[of "turn_term t" src y x X] xy by (simp add: u)
    ultimately show ?thesis
      using eval_term_compare[OF xy(1-3), of X] Evaluate_turn[OF assms(1) xy(6,7,4,5), of "t_op t"] by simp
  qed
  then show "on_core (test_ok X nz src) (turn_term t)"
    and "on_core (test_value X src) (turn_term t) = on_core (test_value X src) t"
    by (simp_all add: test_value_core)
qed

lemma ResolveProperty_literal: "is_value l \<Longrightarrow> ResolveProperty src l = Inr l"
  by (cases l) (auto simp: ResolveProperty_def is_value_def)

lemma operand_eq_ok:
  assumes "ext_ok nz X" "operand_eq X l l'" "is_value l \<Longrightarrow> operand_nz nz l" "is_value l' \<Longrightarrow> operand_nz nz l'"
  shows "l = l'"
  using assms by (cases l; cases l') (auto simp: ext_ok_def is_value_def)

text \<open>Equal terminals, in the sense of the code's \<^verbatim>\<open>operator==\<close>, are the same test.\<close>

lemma term_eq_core:
  assumes X: "ext_ok nz X" and t: "on_core (test_ok X nz src) t" "on_core (test_ok X nz src) u" and eq: "term_eq X t u"
  shows "core t = core u"
proof -
  have lit: "operand_nz nz l" if "is_value l" "compares nz src op l r \<or> compares nz src op r l" for op l r
    using that ResolveProperty_literal[OF that(1), of src] by (auto simp: compares_def)
  have isa: "\<not> is_value l \<and> (is_value r \<longrightarrow> operand_nz nz r)" if "\<exists>b. eval_term X src (mk_term WQL_ISA l r) = Inr b" for l r
    using that by (cases l; cases r) (auto simp: eval_term_def mk_term_def is_value_def)
  have nz: "(is_value (t_opn1 v) \<longrightarrow> operand_nz nz (t_opn1 v)) \<and> (is_value (t_opn2 v) \<longrightarrow> operand_nz nz (t_opn2 v))"
    if "on_core (test_ok X nz src) v" for v
    using that lit isa unfolding test_ok_def by metis
  show ?thesis
    using eq nz[OF t(1)] nz[OF t(2)] operand_eq_ok[OF X, of "t_opn1 t" "t_opn1 u"] operand_eq_ok[OF X, of "t_opn2 t" "t_opn2 u"]
    by (auto simp: term_eq_def core_def)
qed

section \<open>Evaluation of the tableau\<close>

lemma ball_core:
  assumes "core ` A = core ` B"
  shows "(\<forall>t\<in>A. on_core p t) = (\<forall>t\<in>B. on_core p t)"
proof -
  have *: "(\<forall>t\<in>C. on_core p t) = (\<forall>c\<in>core ` C. case c of (op, l, r) \<Rightarrow> p op l r)" for C by (simp add: core_def)
  show ?thesis unfolding *[of A] *[of B] assms ..
qed

lemma sort_tableau_row_ok:
  assumes X: "ext_ok nz X" and tr: "\<forall>t\<in>set tr. on_core (test_ok X nz src) t"
  shows "\<forall>t\<in>set (sort_tableau_row X tr). on_core (test_ok X nz src) t"
    and "(\<forall>t\<in>set (sort_tableau_row X tr). on_core (test_value X src) t) = (\<forall>t\<in>set tr. on_core (test_value X src) t)"
proof -
  let ?tr = "map turn_term tr"
  have turned: "\<forall>t\<in>set ?tr. on_core (test_ok X nz src) t"
      "(\<forall>t\<in>set ?tr. on_core (test_value X src) t) = (\<forall>t\<in>set tr. on_core (test_value X src) t)"
    using tr turn_term_ok[OF X] by auto
  have sorted: "core ` set (sort_row X ?tr) = core ` set ?tr"
    using arg_cong[OF sort_row_core[of X ?tr], of set_mset] by (simp add: image_image)
  then have "\<forall>t\<in>set (sort_row X ?tr). on_core (test_ok X nz src) t" using ball_core turned(1) by blast
  then have "core ` set (sort_tableau_row X tr) = core ` set (sort_row X ?tr)"
    using term_eq_core[OF X] unfolding sort_tableau_row_def by (intro unique_run_core) blast
  then have "core ` set (sort_tableau_row X tr) = core ` set ?tr" using sorted by simp
  then show "\<forall>t\<in>set (sort_tableau_row X tr). on_core (test_ok X nz src) t"
    and "(\<forall>t\<in>set (sort_tableau_row X tr). on_core (test_value X src) t) = (\<forall>t\<in>set tr. on_core (test_value X src) t)"
    using ball_core turned by blast+
qed

lemma eval_row_ok:
  "\<forall>t\<in>set tr. on_core (test_ok X nz src) t \<Longrightarrow> eval_row X src tr = Inr (\<forall>t\<in>set tr. on_core (test_value X src) t)"
  by (induction tr) (auto simp: eval_test_ok)

lemma eval_rows_ok:
  "\<forall>tr\<in>set trs. \<forall>t\<in>set tr. on_core (test_ok X nz src) t \<Longrightarrow>
   eval_rows X src trs = Inr (\<exists>tr\<in>set trs. \<forall>t\<in>set tr. on_core (test_value X src) t)"
proof (induction trs)
  case (Cons tr trs)
  then have "eval_row X src tr = Inr (\<forall>t\<in>set tr. on_core (test_value X src) t)" by (intro eval_row_ok[of tr X nz src]) simp
  then show ?case using Cons by (cases "\<forall>t\<in>set tr. on_core (test_value X src) t") (simp, simp, blast)
qed simp

lemma evaluate_rows:
  assumes X: "ext_ok nz X" and rows: "\<forall>tr\<in>set rows. \<forall>t\<in>set tr. on_core (test_ok X nz src) t" "rows \<noteq> []"
    and c: "tableau c = map (sort_tableau_row X) rows"
  shows "evaluate X src c = Inr (\<exists>tr\<in>set rows. \<forall>t\<in>set tr. on_core (test_value X src) t)"
proof -
  have "\<forall>tr\<in>set (tableau c). \<forall>t\<in>set tr. on_core (test_ok X nz src) t"
    using rows(1) sort_tableau_row_ok(1)[OF X] by (auto simp: c)
  moreover have "(\<exists>tr\<in>set (tableau c). \<forall>t\<in>set tr. on_core (test_value X src) t) =
      (\<exists>tr\<in>set rows. \<forall>t\<in>set tr. on_core (test_value X src) t)"
    using rows(1) sort_tableau_row_ok(2)[OF X] by (auto simp: c)
  ultimately show ?thesis using eval_rows_ok[of "tableau c" X nz src] rows(2) c by (simp add: evaluate_def)
qed

section \<open>The compilation as a whole\<close>

lemma compile_where_rows:
  assumes cl: "neg_closed tv P Q" and P: "\<forall>t\<in>set (tnodes e). P t" and neg: "neg_ok Q False e"
    and ops: "\<forall>(op, l, r)\<in>cmps e. test_op op" and wqs: "operStack wqs = postfix e"
  shows "\<exists>c rows. compile_where X wqs WQLCompile_new = Some (Inr c) \<and> tableau c = map (sort_tableau_row X) rows \<and>
     rows \<noteq> [] \<and> (\<forall>row\<in>set rows. \<forall>t\<in>set row. P t) \<and>
     (\<exists>row\<in>set rows. \<forall>t\<in>set row. tv t) = wsem (\<lambda>op l r. tv (mk_term op l r)) e"
proof -
  define c1 :: "'a WQLCompile" where "c1 = WQLCompile_new\<lparr>eval_heap := enodes 0 0 e, terminal_heap := tnodes e\<rparr>"
  have b: "buildEvalHeap wqs (WQLCompile_new\<lparr>tableau := []\<rparr>) = Inr c1"
    using buildEvalHeap_postfix[OF ops wqs, of "WQLCompile_new\<lparr>tableau := []\<rparr>"] by (simp add: c1_def WQLCompile_new_def)
  obtain c2 R f where p: "pushNOTDown c1 = Inr c2" "tree (length (terminal_heap c2)) (eval_heap c2) R"
      "no_nots (eval_heap c2)" "root_last (eval_heap c2) R" "\<forall>t\<in>set (terminal_heap c2). P t"
      "sat tv (terminal_heap c2) (eval_heap c2) f"
      "refv tv (terminal_heap c2) f R = wsem (\<lambda>op l r. tv (mk_term op l r)) e"
    using pushNOTDown_postfix[OF cl P neg, of c1] by (auto simp: c1_def)
  let ?ts = "terminal_heap c2" and ?t = "\<lambda>k. tv (terminal_heap c2 ! k)"
  obtain h R' f' where fac: "factoring c2 = Some (Inr (c2\<lparr>eval_heap := h\<rparr>))"
      "fac_inv (length ?ts) (length h) h R'" "bsat ?t h f'" "gref ?t f' R' = wsem (\<lambda>op l r. tv (mk_term op l r)) e"
    using factoring_ok[OF p(2,3,4,6)] p(7) by auto
  define disj where "disj = (\<lambda>d. if d = [] \<and> ?ts \<noteq> [] then [mk_stack 0 TERMINAL_HEAP] else d)"
  have "\<exists>rs h0 g d. gatherDisj [] h = Some (Inr (d, g)) \<and> disj d = map stk_of rs \<and> and_heap (length ?ts) h0 g \<and>
      bsat ?t h0 f' \<and> rs \<noteq> [] \<and> (\<forall>r\<in>set rs. and_ref (length ?ts) (length h0) h0 r) \<and> (\<exists>r\<in>set rs. gref ?t f' r) = gref ?t f' R'"
  proof (cases "snd R' = EVAL_HEAP")
    case True
    from gatherDisj_ok[OF fac(2,3) True] obtain rs h0 g where
      "gatherDisj [] h = Some (Inr (map stk_of rs, g))" "and_heap (length ?ts) h0 g" "bsat ?t h0 f'" "rs \<noteq> []"
      "\<forall>r\<in>set rs. and_ref (length ?ts) (length h0) h0 r" "(\<exists>r\<in>set rs. gref ?t f' r) = gref ?t f' R'" by blast
    then show ?thesis by (intro exI[of _ rs] exI[of _ h0] exI[of _ g] exI[of _ "map stk_of rs"]) (simp add: disj_def)
  next
    case False
    then have r: "R' = (0, TERMINAL_HEAP)" "\<And>j. j < length h \<Longrightarrow> \<not> active (h ! j)" "ok_ref (length ?ts) (length h) R'"
      using fac(2) by (auto simp: fac_inv_def root_last_def)
    then have "gatherDisj [] h = Some (Inr ([], []))" using strip_none[of h] by (simp add: gatherDisj_def gather_def)
    moreover have "disj [] = map stk_of [R']" using r by (auto simp: disj_def stk_of_def ok_ref_def)
    moreover have "and_heap (length ?ts) [] []" "bsat ?t [] f'" "and_ref (length ?ts) (length []) [] R'"
      using r by (simp_all add: and_heap_def gsat_def and_ref_def ok_ref_def)
    ultimately show ?thesis by (intro exI[of _ "[R']"] exI[of _ "[]"]) auto
  qed
  then obtain rs h0 g d where g: "gatherDisj [] h = Some (Inr (d, g))" "disj d = map stk_of rs"
      "and_heap (length ?ts) h0 g" "bsat ?t h0 f'" "rs \<noteq> []" "\<forall>r\<in>set rs. and_ref (length ?ts) (length h0) h0 r"
      "(\<exists>r\<in>set rs. gref ?t f' r) = wsem (\<lambda>op l r. tv (mk_term op l r)) e"
    using fac(4) by blast
  obtain rows where rows: "compile_rows ?ts (disj d) g = Some (Inr rows)" "length rows = length rs" "\<forall>row\<in>set rows. set row \<subseteq> set ?ts"
      "(\<exists>row\<in>set rows. \<forall>x\<in>set row. tv x) = wsem (\<lambda>op l r. tv (mk_term op l r)) e"
    using compile_rows_ok[OF g(4,3,6)] unfolding g(2,7) by blast
  have ne: "rows \<noteq> []" using rows(2) g(5) by auto
  have "compile_where X wqs WQLCompile_new = Some (Inr (sortTableau X (c2\<lparr>tableau := rows, eval_heap := []\<rparr>)))"
    using wqs b p(1) fac(1) g(1) rows(1) by (simp add: compile_where_def hasWhereClause_def disj_def Let_def)
  moreover have "\<forall>row\<in>set rows. \<forall>t\<in>set row. P t" using rows(3) p(5) by blast
  ultimately show ?thesis using rows(4) ne
    by (intro exI[of _ "sortTableau X (c2\<lparr>tableau := rows, eval_heap := []\<rparr>)"] exI[of _ rows]) (simp add: sortTableau_def)
qed

text \<open>
  Whether a clause compiles does not depend on the property source: for the shape alone, \<open>=\<close>, \<open><\<close> and
  \<open>\<le>\<close> may stand for true and the others for false.
\<close>

lemma neg_closed_shape:
  "neg_closed (\<lambda>t. t_op t \<in> {WQL_EQ, WQL_LT, WQL_LE}) (\<lambda>t. test_op (t_op t)) (\<lambda>t. comparison (t_op t))"
  by (auto simp: neg_closed_def test_op_def comparison_def)

lemma set_tnodes: "set (tnodes e) = (\<lambda>(op, l, r). mk_term op l r) ` cmps e"
  by (induction e) (simp_all add: image_Un)

lemma mk_term_sel [simp]: "t_op (mk_term op l r) = op" "t_opn1 (mk_term op l r) = l" "t_opn2 (mk_term op l r) = r"
  by (simp_all add: mk_term_def)

lemma neg_ok_mono:
  "neg_ok Q u e \<Longrightarrow> (\<And>op l r. (op, l, r) \<in> cmps e \<Longrightarrow> Q (mk_term op l r) \<Longrightarrow> Q' (mk_term op l r)) \<Longrightarrow> neg_ok Q' u e"
  by (induction e arbitrary: u) auto

text \<open>No ISA test stands under a NOT.\<close>

definition no_negated_isa :: "'r wexpr \<Rightarrow> bool" where
  "no_negated_isa e \<longleftrightarrow> neg_ok (\<lambda>t. t_op t \<noteq> WQL_ISA) False e"

lemma compile_where_total:
  assumes "\<forall>(op, l, r)\<in>cmps e. test_op op" "no_negated_isa e" "operStack wqs = postfix e"
  shows "\<exists>c. compile_where X wqs WQLCompile_new = Some (Inr c)"
proof -
  have "neg_ok (\<lambda>t. comparison (t_op t)) False e"
    using assms(2) unfolding no_negated_isa_def by (rule neg_ok_mono) (use assms(1) in \<open>auto simp: test_op_def\<close>)
  moreover have "\<forall>t\<in>set (tnodes e). test_op (t_op t)" using assms(1) by (auto simp: set_tnodes)
  ultimately show ?thesis using compile_where_rows[OF neg_closed_shape _ _ assms(1,3), of X] by blast
qed

lemma compile_where_value:
  assumes X: "ext_ok nz X" and ok: "\<forall>(op, l, r)\<in>cmps e. test_ok X nz src op l r"
    and neg: "neg_ok (on_core (negatable_test nz src)) False e" and wqs: "operStack wqs = postfix e"
    and c: "compile_where X wqs WQLCompile_new = Some (Inr c)"
  shows "evaluate X src c = Inr (wsem (test_value X src) e)"
proof -
  have "\<forall>(op, l, r)\<in>cmps e. test_op op" using ok by (auto simp: test_ok_def compares_def test_op_def)
  moreover have "\<forall>t\<in>set (tnodes e). on_core (test_ok X nz src) t" using ok by (auto simp: set_tnodes)
  ultimately obtain rows where "tableau c = map (sort_tableau_row X) rows" "rows \<noteq> []"
      "\<forall>row\<in>set rows. \<forall>t\<in>set row. on_core (test_ok X nz src) t"
      "(\<exists>row\<in>set rows. \<forall>t\<in>set row. on_core (test_value X src) t) = wsem (\<lambda>op l r. on_core (test_value X src) (mk_term op l r)) e"
    using compile_where_rows[OF neg_closed_tests[OF X, of src] _ neg _ wqs, of X] c by auto
  then show ?thesis using evaluate_rows[OF X, of rows src c] by simp
qed

end
