(* ===== verification/WQL_Theorems.thy ===== *)
theory WQL_Theorems
  imports WQL_Correct
begin

text \<open>
  What the two evaluators of where clauses do: the properties of \<^verbatim>\<open>WQLCompile\<close> and of
  \<^verbatim>\<open>WQLSelectStatement::evaluateWhereClause\<close>, each with an instance on a concrete clause.
\<close>

section \<open>A concrete instance\<close>

text \<open>Whole numbers for \<^verbatim>\<open>Real64\<close>, the order of the character codes for strings.\<close>

definition ex_ext :: "int ext" where
  "ex_ext = \<lparr>r_eq = (=), r_lt = (<), r_le = (\<le>), r_of_int = sint,
     s_lt = ord.lexordp (\<lambda>a b. (of_char a :: nat) < of_char b),
     s_le = (\<lambda>x y. \<not> ord.lexordp (\<lambda>a b. (of_char a :: nat) < of_char b) y x),
     s_of_int = (\<lambda>i. if sint i < 0 then ''-'' else ''+''), s_of_real = (\<lambda>i. if i < 0 then ''-'' else ''+''),
     s_of_bool = (\<lambda>b. if b then ''TRUE'' else ''FALSE'')\<rparr>"

definition ex_source :: "(string \<times> int WQLOperand) list \<Rightarrow> int property_source" where
  "ex_source props = \<lparr>src_getValue = (\<lambda>p. Inr (map_of props p)), src_evaluateISA = (\<lambda>p c. Inr (p = ''Kind'' \<and> c = ''Disk''))\<rparr>"

definition ex_where :: "int wexpr \<Rightarrow> int WQLSelectStatement" where
  "ex_where e = WQLSelectStatement_new\<lparr>operStack := postfix e\<rparr>"

lemma ex_ext_ok: "ext_ok (\<lambda>_. True) ex_ext"
  by (auto simp: ext_ok_def ex_ext_def)

lemma operStack_ex_where [simp]: "operStack (ex_where e) = postfix e"
  by (simp add: ex_where_def)

definition ex_props :: "(string \<times> int WQLOperand) list" where
  "ex_props = [(''Size'', INTEGER_VALUE 7), (''Name'', STRING_VALUE ''hda''), (''Kind'', STRING_VALUE ''x'')]"

definition ex_clause :: "int wexpr" where
  "ex_clause =
     Or (Cmp WQL_ISA (PROPERTY_NAME ''Kind'') (STRING_VALUE ''Tape''))
        (Not (And (Cmp WQL_EQ (PROPERTY_NAME ''Name'') (STRING_VALUE ''sda''))
                  (Not (Or (Cmp WQL_LT (PROPERTY_NAME ''Size'') (INTEGER_VALUE 5))
                           (Cmp WQL_GE (INTEGER_VALUE 9) (PROPERTY_NAME ''Size''))))))"

lemmas ex_simps = ex_clause_def ex_props_def ex_source_def test_op_def comparison_def no_negated_isa_def
  test_ok_def compares_def negatable_test_def negatable_def ResolveProperty_def is_value_def

section \<open>The compiled clause\<close>

text \<open>
  C2: For every where clause made of comparisons and ISA tests joined by AND, OR and NOT, with no
  ISA test under a NOT, \<^verbatim>\<open>compile\<close> on a fresh object returns normally; all its loops end and no array
  access is out of bounds. On every source on which the tests have an answer, and no ordering
  comparison with a null stands under a NOT, \<^verbatim>\<open>evaluate\<close> then returns the two-valued meaning of the
  clause.
\<close>

theorem compile_evaluate_correct:
  assumes "\<forall>(op, l, r)\<in>cmps e. test_op op" "no_negated_isa e" "operStack wqs = postfix e"
  shows "\<exists>c. compile_where X wqs WQLCompile_new = Some (Inr c) \<and>
     (\<forall>nz src. ext_ok nz X \<longrightarrow> (\<forall>(op, l, r)\<in>cmps e. test_ok X nz src op l r) \<longrightarrow>
        neg_ok (on_core (negatable_test nz src)) False e \<longrightarrow> evaluate X src c = Inr (wsem (test_value X src) e))"
proof -
  obtain c where "compile_where X wqs WQLCompile_new = Some (Inr c)" using compile_where_total[OF assms] by blast
  then show ?thesis using compile_where_value[OF _ _ _ assms(3)] by blast
qed

theorem compile_evaluate_correct_witness:
  "\<exists>c. compile_where ex_ext (ex_where ex_clause) WQLCompile_new = Some (Inr c) \<and>
     evaluate ex_ext (ex_source ex_props) c = Inr True"
proof -
  have 1: "\<forall>(op, l, r)\<in>cmps ex_clause. test_op op" "no_negated_isa ex_clause"
    by (simp_all add: ex_simps)
  have "\<forall>(op, l, r)\<in>cmps ex_clause. test_ok ex_ext (\<lambda>_. True) (ex_source ex_props) op l r"
    "neg_ok (on_core (negatable_test (\<lambda>_. True) (ex_source ex_props))) False ex_clause"
    by (auto simp: ex_simps eval_term_def)
  moreover have "wsem (test_value ex_ext (ex_source ex_props)) ex_clause = True"
    by (simp add: ex_simps test_value_def eval_term_def Compare_defs)
  ultimately show ?thesis
    using compile_evaluate_correct[OF 1 operStack_ex_where, of ex_ext] ex_ext_ok by fastforce
qed

text \<open>
  C3: \<^verbatim>\<open>_pushNOTDown\<close>, run on the heaps \<^verbatim>\<open>_buildEvalHeap\<close> makes of such a clause, returns normally and
  leaves AND and OR elements without marks only. The value of the heaps it leaves, computed from
  the terminals up to the last element that is not disconnected, is the meaning of the clause; in
  particular no element that counts refers to a disconnected one.
\<close>

theorem pushNOTDown_correct:
  assumes "ext_ok nz X" "\<forall>(op, l, r)\<in>cmps e. test_ok X nz src op l r"
    and "neg_ok (on_core (negatable_test nz src)) False e" "operStack wqs = postfix e"
  shows "\<exists>c c'. buildEvalHeap wqs WQLCompile_new = Inr c \<and> pushNOTDown c = Inr c' \<and> no_nots (eval_heap c') \<and>
     heap_value (on_core (test_value X src)) (terminal_heap c') (eval_heap c') = Some (wsem (test_value X src) e)"
proof -
  let ?c = "WQLCompile_new\<lparr>eval_heap := enodes 0 0 e, terminal_heap := tnodes e\<rparr>"
  have ops: "\<forall>(op, l, r)\<in>cmps e. test_op op" using assms(2) by (auto simp: test_ok_def compares_def test_op_def)
  have P: "\<forall>t\<in>set (tnodes e). on_core (test_ok X nz src) t" using assms(2) by (auto simp: set_tnodes)
  have b: "buildEvalHeap wqs WQLCompile_new = Inr ?c"
    using buildEvalHeap_postfix[OF ops assms(4), of WQLCompile_new] by (simp add: WQLCompile_new_def)
  obtain c' R f where c': "pushNOTDown ?c = Inr c'" "tree (length (terminal_heap c')) (eval_heap c') R"
    "no_nots (eval_heap c')" "root_last (eval_heap c') R"
    "sat (on_core (test_value X src)) (terminal_heap c') (eval_heap c') f"
    "refv (on_core (test_value X src)) (terminal_heap c') f R = wsem (test_value X src) e"
    using pushNOTDown_postfix[OF neg_closed_tests[OF assms(1), of src] P assms(3), of ?c] by auto
  from tree_heap_value[OF c'(2,4,5)] c'(6) b c'(1,3) show ?thesis by auto
qed

theorem pushNOTDown_correct_witness:
  "\<exists>c c'. buildEvalHeap (ex_where ex_clause) WQLCompile_new = Inr c \<and> pushNOTDown c = Inr c' \<and> no_nots (eval_heap c') \<and>
     heap_value (on_core (test_value ex_ext (ex_source ex_props))) (terminal_heap c') (eval_heap c') = Some True"
proof -
  have "\<forall>(op, l, r)\<in>cmps ex_clause. test_ok ex_ext (\<lambda>_. True) (ex_source ex_props) op l r"
    "neg_ok (on_core (negatable_test (\<lambda>_. True) (ex_source ex_props))) False ex_clause"
    by (auto simp: ex_simps eval_term_def)
  note w = pushNOTDown_correct[OF ex_ext_ok this operStack_ex_where]
  have "wsem (test_value ex_ext (ex_source ex_props)) ex_clause = True"
    by (simp add: ex_simps test_value_def eval_term_def Compare_defs)
  with w show ?thesis by simp
qed

text \<open>
  C4: \<^verbatim>\<open>_factoring\<close> ends on every heap whose active elements are a tree of AND and OR nodes under the
  last of them. It leaves AND and OR elements without marks only, no OR as an operand of an AND, and
  under every assignment of truth values to the terminals the heap has a value before and after,
  the same one. Elements are counted without a bound, as long as the heap has less than \<open>2\<^sup>3\<^sup>1\<close> of them
  the indices are those of the code.
\<close>

theorem factoring_correct:
  assumes "tree (length (terminal_heap c)) (eval_heap c) R" "no_nots (eval_heap c)" "root_last (eval_heap c) R"
  shows "\<exists>h. factoring c = Some (Inr (c\<lparr>eval_heap := h\<rparr>)) \<and> no_nots h \<and>
     (\<forall>k<length h. e_op (h ! k) = WQL_AND \<longrightarrow> (\<forall>r\<in>set (refs (h ! k)). \<not> or_child h r)) \<and>
     (\<forall>tv. \<exists>v. heap_value tv (terminal_heap c) (eval_heap c) = Some v \<and> heap_value tv (terminal_heap c) h = Some v)"
proof -
  have keep: "\<exists>h R' v. factoring c = Some (Inr (c\<lparr>eval_heap := h\<rparr>)) \<and> fac_inv (length (terminal_heap c)) (length h) h R' \<and>
      heap_value tv (terminal_heap c) (eval_heap c) = Some v \<and> heap_value tv (terminal_heap c) h = Some v" for tv
  proof -
    obtain f where s: "sat tv (terminal_heap c) (eval_heap c) f"
      using sat_exists[of "eval_heap c" "length (terminal_heap c)" "eval_heap c" R] treeD(3)[OF assms(1)] by blast
    from factoring_ok[OF assms s] obtain h R' f' where *:
      "factoring c = Some (Inr (c\<lparr>eval_heap := h\<rparr>))" "fac_inv (length (terminal_heap c)) (length h) h R'"
      "bsat (\<lambda>k. tv (terminal_heap c ! k)) h f'" "gref (\<lambda>k. tv (terminal_heap c ! k)) f' R' = refv tv (terminal_heap c) f R"
      by blast
    have "heap_value tv (terminal_heap c) h = Some (refv tv (terminal_heap c) f R)"
      using fac_heap_value[OF *(2,3)] *(4) by simp
    with *(1,2) tree_heap_value[OF assms(1,3) s] show ?thesis by blast
  qed
  from keep[of "\<lambda>_. True"] obtain h R0 where
    h: "factoring c = Some (Inr (c\<lparr>eval_heap := h\<rparr>))" "fac_inv (length (terminal_heap c)) (length h) h R0" by blast
  have "\<exists>v. heap_value tv (terminal_heap c) (eval_heap c) = Some v \<and> heap_value tv (terminal_heap c) h = Some v" for tv
  proof -
    from keep[of tv] obtain h' v where *: "factoring c = Some (Inr (c\<lparr>eval_heap := h'\<rparr>))"
      "heap_value tv (terminal_heap c) (eval_heap c) = Some v" "heap_value tv (terminal_heap c) h' = Some v" by blast
    have "eval_heap (c\<lparr>eval_heap := h'\<rparr>) = eval_heap (c\<lparr>eval_heap := h\<rparr>)" using h(1) *(1) by simp
    then show ?thesis using * by simp
  qed
  moreover have "no_nots h" using h(2) by (auto simp: fac_inv_def fac_node_def no_nots_def)
  ultimately show ?thesis using h unfolding fac_inv_def by blast
qed

definition ex_heaps :: "int WQLCompile" where
  "ex_heaps = WQLCompile_new\<lparr>terminal_heap := replicate 3 (mk_term WQL_EQ NULL_VALUE NULL_VALUE),
     eval_heap := [mk_node WQL_OR (0, TERMINAL_HEAP) (1, TERMINAL_HEAP), mk_node WQL_AND (0, EVAL_HEAP) (2, TERMINAL_HEAP)]\<rparr>"

theorem factoring_correct_witness:
  "\<exists>h. factoring ex_heaps = Some (Inr (ex_heaps\<lparr>eval_heap := h\<rparr>)) \<and>
     (\<forall>k<length h. e_op (h ! k) = WQL_AND \<longrightarrow> (\<forall>r\<in>set (refs (h ! k)). \<not> or_child h r)) \<and>
     heap_value (\<lambda>t. t_op t = WQL_EQ) (terminal_heap ex_heaps) h = Some True"
proof -
  have "tree (length (terminal_heap ex_heaps)) (eval_heap ex_heaps) (1, EVAL_HEAP)" "no_nots (eval_heap ex_heaps)"
    "root_last (eval_heap ex_heaps) (1, EVAL_HEAP)"
    by (auto simp: tree_def tree_node_def ok_ref_def live_def active_def ex_heaps_def no_nots_def root_last_def
        less_Suc_eq intro: exI[of _ 1])
  note w = factoring_correct[OF this]
  have "heap_value (\<lambda>t. t_op t = WQL_EQ) (terminal_heap ex_heaps) (eval_heap ex_heaps) = Some True"
    by (simp add: ex_heaps_def heap_value_def heap_values_def heap_root_def strip_do_nothing.simps ref_value_def
        el_value_def mk_term_def)
  with w show ?thesis by (metis option.inject)
qed

section \<open>The direct evaluation\<close>

text \<open>
  C12: \<^verbatim>\<open>evaluateWhereClause\<close>, run on the postfix form of a clause whose tests it can answer, leaves exactly
  one value on its stack and returns the two-valued meaning of the clause under those answers.
\<close>

theorem evaluateWhereClause_correct:
  assumes "\<forall>(op, l, r)\<in>cmps e. test_op op \<and> stmt_test X src op l r = Inr (tv op l r)" "operStack s = postfix e"
  shows "evaluateWhereClause X src s = Inr (wsem tv e)"
  using eval_postfix[OF assms(1), of "[]"] assms(2) by (simp add: evaluateWhereClause_def hasWhereClause_def)

definition ex_equal :: "int wexpr" where
  "ex_equal = Not (Or (Cmp WQL_EQ (PROPERTY_NAME ''Name'') (STRING_VALUE ''sda''))
                      (Cmp WQL_NE (INTEGER_VALUE 7) (PROPERTY_NAME ''Size'')))"

lemmas stmt_simps = stmt_test_def stmt_compare_def stmt_ResolveProperty_def Compare_defs

theorem evaluateWhereClause_correct_witness:
  "evaluateWhereClause ex_ext (ex_source ex_props) (ex_where ex_equal) = Inr True"
proof -
  let ?tv = "\<lambda>op l r. stmt_test ex_ext (ex_source ex_props) op l r = Inr True"
  have "\<forall>(op, l, r)\<in>cmps ex_equal. test_op op \<and> stmt_test ex_ext (ex_source ex_props) op l r = Inr (?tv op l r)"
    by (simp add: ex_equal_def ex_simps stmt_simps)
  from evaluateWhereClause_correct[OF this operStack_ex_where] show ?thesis
    by (simp add: ex_equal_def ex_simps stmt_simps)
qed

text \<open>Both operands of a test have values, of the same type.\<close>

definition same_type :: "'r property_source \<Rightarrow> 'r WQLOperand \<Rightarrow> 'r WQLOperand \<Rightarrow> bool" where
  "same_type src l r \<longleftrightarrow>
     (\<exists>x y. ResolveProperty src l = Inr x \<and> ResolveProperty src r = Inr y \<and> getType x = getType y)"

lemma stmt_ResolveProperty_Inr: "stmt_ResolveProperty src l = Inr x \<longleftrightarrow> ResolveProperty src l = Inr x"
  by (cases l) (auto simp: stmt_ResolveProperty_def ResolveProperty_def bind_r_eq_Inr split: option.splits)

lemma stmt_Evaluate_same_type:
  "getType x = getType y \<Longrightarrow> is_value x \<Longrightarrow> stmt_Evaluate X x y op = Evaluate X x y op"
  by (cases x; cases y) (auto simp: is_value_def)

lemma stmt_test_swapped:
  assumes "compares nz src op l r" "same_type src l r" "ResolveProperty src l = Inr x" "ResolveProperty src r = Inr y"
  shows "stmt_test X src op l r = Evaluate X y x op"
proof -
  have "op \<noteq> WQL_ISA" "is_value y" "getType x = getType y" using assms by (auto simp: compares_def comparison_def same_type_def)
  then show ?thesis
    using assms(3,4) stmt_ResolveProperty_Inr[of src l x] stmt_ResolveProperty_Inr[of src r y] stmt_Evaluate_same_type[of y x X op]
    by (simp add: stmt_test_def stmt_compare_def)
qed

lemma neg_ok_all: "(\<And>op l r. (op, l, r) \<in> cmps e \<Longrightarrow> Q (mk_term op l r)) \<Longrightarrow> neg_ok Q u e"
  by (induction e arbitrary: u) auto

text \<open>
  C10: On clauses whose tests are \<open>=\<close> and \<open><>\<close> between values of one type, the compiled form and the
  direct evaluation of the statement give the same answer.
\<close>

theorem evaluators_agree:
  assumes "ext_ok nz X" "operStack wqs = postfix e"
    and "\<forall>(op, l, r)\<in>cmps e. op \<in> {WQL_EQ, WQL_NE} \<and> compares nz src op l r \<and> same_type src l r"
  shows "\<exists>c. compile_where X wqs WQLCompile_new = Some (Inr c) \<and> evaluate X src c = evaluateWhereClause X src wqs"
proof -
  have ok: "\<forall>(op, l, r)\<in>cmps e. test_ok X nz src op l r" "\<forall>(op, l, r)\<in>cmps e. test_op op"
    using assms(3) by (auto simp: test_ok_def test_op_def compares_def)
  have neg: "no_negated_isa e" "neg_ok (on_core (negatable_test nz src)) False e"
    unfolding no_negated_isa_def using assms(3)
    by (auto intro!: neg_ok_all simp: negatable_test_def negatable_def compares_def comparison_def)
  obtain c where c: "compile_where X wqs WQLCompile_new = Some (Inr c)"
    using compile_where_total[OF ok(2) neg(1) assms(2)] by blast
  have "stmt_test X src op l r = Inr (test_value X src op l r)" if "(op, l, r) \<in> cmps e" for op l r
  proof -
    have 1: "op \<in> {WQL_EQ, WQL_NE}" "compares nz src op l r" "same_type src l r" using assms(3) that by auto
    then obtain x y where xy: "ResolveProperty src l = Inr x" "ResolveProperty src r = Inr y" "is_value x" "is_value y"
      "operand_nz nz x" "operand_nz nz y" "comparison op" by (auto simp: compares_def)
    have "turn_op op = op" using 1(1) by auto
    then have "Evaluate X y x op = Evaluate X x y op" using Evaluate_turn[OF assms(1) xy(5,6,3,4), of op] by simp
    moreover have "Evaluate X x y op = eval_term X src (mk_term op l r)"
      using eval_term_compare[of "mk_term op l r" src x y X] xy by simp
    moreover have "eval_term X src (mk_term op l r) = Inr (test_value X src op l r)"
      using eval_test_ok[of X nz src "mk_term op l r"] ok(1) that by auto
    ultimately show ?thesis using stmt_test_swapped[OF 1(2,3) xy(1,2), of X] by simp
  qed
  then have "fold_r (eval_item X src) (postfix e) [] = Inr [BOOLEAN_VALUE (wsem (test_value X src) e)]"
    using ok(2) by (intro eval_postfix) auto
  then have "evaluateWhereClause X src wqs = Inr (wsem (test_value X src) e)"
    using assms(2) by (simp add: evaluateWhereClause_def hasWhereClause_def)
  then show ?thesis using c compile_where_value[OF assms(1) ok(1) neg(2) assms(2) c] by auto
qed

theorem evaluators_agree_witness:
  "\<exists>c. compile_where ex_ext (ex_where ex_equal) WQLCompile_new = Some (Inr c) \<and>
     evaluate ex_ext (ex_source ex_props) c = evaluateWhereClause ex_ext (ex_source ex_props) (ex_where ex_equal)"
  using evaluators_agree[OF ex_ext_ok operStack_ex_where, of ex_equal "ex_source ex_props"]
  by (simp add: ex_equal_def ex_simps same_type_def)

section \<open>Where the evaluators do not follow the clause\<close>

text \<open>
  C22: A single comparison \<open>l op r\<close> of two values of one type is evaluated by \<^verbatim>\<open>evaluateWhereClause\<close> with its
  operands exchanged: it takes the top of its stack, the operand that was appended last, as the left
  one. The clause \<open>Size < 5\<close> thus asks whether 5 is less than the size, unlike in the compiled form.
\<close>

theorem evaluateWhereClause_swaps:
  assumes "compares nz src op l r" "same_type src l r" "ResolveProperty src l = Inr x" "ResolveProperty src r = Inr y"
    and "operStack s = postfix (Cmp op l r)"
  shows "evaluateWhereClause X src s = Evaluate X y x op"
proof -
  have "test_op op" using assms(1) by (simp add: compares_def test_op_def)
  moreover have "\<exists>b. Evaluate X y x op = Inr b"
    using assms(1,3,4) by (intro Evaluate_defined) (auto simp: compares_def)
  ultimately show ?thesis
    using stmt_test_swapped[OF assms(1-4), of X] assms(5)
    by (auto simp: evaluateWhereClause_def hasWhereClause_def eval_item_test)
qed

theorem evaluateWhereClause_swaps_witness:
  "evaluateWhereClause ex_ext (ex_source ex_props) (ex_where (Cmp WQL_LT (PROPERTY_NAME ''Size'') (INTEGER_VALUE 5))) = Inr True \<and>
   Evaluate ex_ext (INTEGER_VALUE 7) (INTEGER_VALUE 5) WQL_LT = Inr False"
  using evaluateWhereClause_swaps[of "\<lambda>_. True" "ex_source ex_props" WQL_LT "PROPERTY_NAME ''Size''" "INTEGER_VALUE 5"
      "INTEGER_VALUE 7" "INTEGER_VALUE 5" "ex_where (Cmp WQL_LT (PROPERTY_NAME ''Size'') (INTEGER_VALUE 5))" ex_ext]
  by (simp add: ex_simps same_type_def Compare_defs)

text \<open>
  C23: A NOT in front of an ISA test is lost by the compilation: \<^verbatim>\<open>term_el::negate\<close> leaves the operation
  ISA as it is, so \<open>NOT (p ISA c)\<close> evaluates as \<open>p ISA c\<close>.
\<close>

theorem compile_drops_NOT_ISA:
  assumes "operStack wqs = postfix (Not (Cmp WQL_ISA l r))" "is_prop l"
  shows "\<exists>c. compile_where X wqs WQLCompile_new = Some (Inr c) \<and>
     evaluate X src c = eval_term X src (mk_term WQL_ISA l r)"
proof -
  have b: "buildEvalHeap wqs (WQLCompile_new\<lparr>tableau := []\<rparr>) =
      Inr (WQLCompile_new\<lparr>eval_heap := [mk_node WQL_NOT (0, TERMINAL_HEAP) nil_ref], terminal_heap := [mk_term WQL_ISA l r]\<rparr>)"
    using buildEvalHeap_postfix[OF _ assms(1), of "WQLCompile_new\<lparr>tableau := []\<rparr>"]
    by (simp add: test_op_def WQLCompile_new_def)
  have p: "pushNOTDown (WQLCompile_new\<lparr>eval_heap := [mk_node WQL_NOT (0, TERMINAL_HEAP) nil_ref], terminal_heap := [mk_term WQL_ISA l r]\<rparr>) =
      Inr (WQLCompile_new\<lparr>eval_heap := [mk_node WQL_DO_NOTHING (0, TERMINAL_HEAP) nil_ref], terminal_heap := [mk_term WQL_ISA l r]\<rparr>)"
    by (simp add: pushNOTDown_def push_at_def push_not_def push_mark_def subst_unary_def push_operand_def arr_upd_def
        mk_node_def mk_eval_def order_el_def negate_def mk_term_def)
  have f: "factoring (WQLCompile_new\<lparr>eval_heap := [mk_node WQL_DO_NOTHING (0, TERMINAL_HEAP) nil_ref], terminal_heap := ts\<rparr>) =
      Some (Inr (WQLCompile_new\<lparr>eval_heap := [mk_node WQL_DO_NOTHING (0, TERMINAL_HEAP) nil_ref], terminal_heap := ts\<rparr>))" for ts :: "'a term_el list"
    by (simp add: factoring_def factoring_loop.simps factor_at_def factor_find_def Let_def)
  have g: "gatherDisj [] [mk_node WQL_DO_NOTHING (0, TERMINAL_HEAP) nil_ref] = Some (Inr ([], []))"
    by (simp add: gatherDisj_def gather_def strip_do_nothing.simps)
  have "compile_where X wqs WQLCompile_new =
      Some (Inr (sortTableau X (WQLCompile_new\<lparr>tableau := [[mk_term WQL_ISA l r]], terminal_heap := [mk_term WQL_ISA l r]\<rparr>)))"
    using assms(1) b p f g by (simp add: compile_where_def hasWhereClause_def row_of_def mk_stack_def arr_get_def WQLCompile_new_def)
  moreover have "turn_term (mk_term WQL_ISA l r) = mk_term WQL_ISA l r" using assms(2) by (simp add: turn_term_def)
  moreover have "sort_row X [t] = [t]" for t :: "'a term_el" by (simp add: sort_row_def swap_terms_def Let_def)
  ultimately show ?thesis
    by (simp add: sortTableau_def sort_tableau_row_def evaluate_def)
       (cases "eval_term X src (mk_term WQL_ISA l r)"; simp)
qed

theorem compile_drops_NOT_ISA_witness:
  "\<exists>c. compile_where ex_ext (ex_where (Not (Cmp WQL_ISA (PROPERTY_NAME ''Kind'') (STRING_VALUE ''Disk'')))) WQLCompile_new =
         Some (Inr c) \<and> evaluate ex_ext (ex_source ex_props) c = Inr True"
  using compile_drops_NOT_ISA[OF operStack_ex_where, where l = "PROPERTY_NAME ''Kind''" and r = "STRING_VALUE ''Disk''"
      and X = ex_ext and src = "ex_source ex_props"]
  by (simp add: is_prop_def eval_term_def ex_source_def)

lemmas compile_simps = compile_where_def hasWhereClause_def pushNOTDown_def factoring_def factoring_loop.simps
  gatherDisj_def gather_def strip_do_nothing.simps row_of_def mk_stack_def sortTableau_def

text \<open>
  C24: \<^verbatim>\<open>compile\<close> does not empty the terminal heap. When it is called again on an object, a clause that is a
  single comparison is not compiled at all: the tableau becomes the first comparison of the clause
  compiled before.
\<close>

theorem compile_reuse_stale:
  assumes "operStack wqs = postfix (Cmp op l r)" "test_op op" "terminal_heap c \<noteq> []" "eval_heap c = []"
  shows "\<exists>c'. compile_where X wqs c = Some (Inr c') \<and> tableau c' = [sort_tableau_row X [terminal_heap c ! 0]]"
proof -
  have b: "buildEvalHeap wqs (c\<lparr>tableau := []\<rparr>) = Inr (c\<lparr>tableau := [], terminal_heap := terminal_heap c @ [mk_term op l r]\<rparr>)"
    using buildEvalHeap_postfix[OF _ assms(1), of "c\<lparr>tableau := []\<rparr>"] assms(2,4) by simp
  moreover have "arr_get (terminal_heap c @ [mk_term op l r]) 0 = Inr (terminal_heap c ! 0)"
    using assms(3) by (simp add: arr_get_def nth_append)
  ultimately show ?thesis
    using assms(1,4)
    by (simp add: compile_simps)
qed

theorem compile_reuse_stale_witness:
  "\<exists>c c'. compile_where ex_ext (ex_where (Cmp WQL_EQ (PROPERTY_NAME ''Name'') (STRING_VALUE ''hda''))) WQLCompile_new = Some (Inr c) \<and>
     compile_where ex_ext (ex_where (Cmp WQL_EQ (PROPERTY_NAME ''Size'') (INTEGER_VALUE 9))) c = Some (Inr c') \<and>
     evaluate ex_ext (ex_source ex_props) c' = Inr True"
proof -
  let ?t = "mk_term WQL_EQ (PROPERTY_NAME ''Name'') (STRING_VALUE ''hda'') :: int term_el"
  let ?c = "WQLCompile_new\<lparr>tableau := [[?t]], terminal_heap := [?t]\<rparr> :: int WQLCompile"
  have one: "sort_tableau_row ex_ext [?t] = [?t]"
    by (simp add: sort_tableau_row_def turn_term_def is_prop_def sort_row_def swap_terms_def)
  have 1: "compile_where ex_ext (ex_where (Cmp WQL_EQ (PROPERTY_NAME ''Name'') (STRING_VALUE ''hda''))) WQLCompile_new = Some (Inr ?c)"
    using buildEvalHeap_postfix[OF _ operStack_ex_where, of "Cmp WQL_EQ (PROPERTY_NAME ''Name'') (STRING_VALUE ''hda'')" WQLCompile_new] one
    by (simp add: compile_simps WQLCompile_new_def test_op_def comparison_def arr_get_def)
  have "terminal_heap ?c \<noteq> []" "eval_heap ?c = []" "test_op WQL_EQ" by (simp_all add: WQLCompile_new_def test_op_def comparison_def)
  from compile_reuse_stale[OF operStack_ex_where this(3,1,2), where X = ex_ext and l = "PROPERTY_NAME ''Size''" and r = "INTEGER_VALUE 9"]
  obtain c' where
    2: "compile_where ex_ext (ex_where (Cmp WQL_EQ (PROPERTY_NAME ''Size'') (INTEGER_VALUE 9))) ?c = Some (Inr c')" "tableau c' = [[?t]]"
    using one by auto
  have "evaluate ex_ext (ex_source ex_props) c' = Inr True"
    using 2(2) by (simp add: evaluate_def eval_term_def mk_term_def ResolveProperty_def ex_source_def ex_props_def Compare_defs)
  with 1 2(1) show ?thesis by blast
qed

text \<open>
  C25: \<^verbatim>\<open>term_el::negate\<close> turns a comparison of two values into its complement, except an ordering of
  which an operand is a null: that one answers after the negation what it answered before, so a NOT
  in front of it has no effect in the compiled form.
\<close>

theorem negate_complements:
  assumes "ext_ok nz X" "comparison (t_op t)" "ResolveProperty src (t_opn1 t) = Inr x" "ResolveProperty src (t_opn2 t) = Inr y"
    and "is_value x" "is_value y" "operand_nz nz x" "operand_nz nz y"
  shows "\<exists>b. eval_term X src t = Inr b \<and> eval_term X src (negate t) =
     Inr (if t_op t \<in> {WQL_LT, WQL_LE, WQL_GT, WQL_GE} \<and> (x = NULL_VALUE \<or> y = NULL_VALUE) then b else \<not> b)"
proof -
  have e: "eval_term X src t = Evaluate X x y (t_op t)" "eval_term X src (negate t) = Evaluate X x y (negate_op (t_op t))"
    using eval_term_compare[of t src x y X] eval_term_compare[of "negate t" src x y X] assms(2-4) by simp_all
  obtain b where b: "Evaluate X x y (t_op t) = Inr b"
    using Evaluate_defined[OF assms(5,6,2), of X] by blast
  show ?thesis
  proof (cases "negatable (t_op t) x y")
    case True
    then have "\<not> (t_op t \<in> {WQL_LT, WQL_LE, WQL_GT, WQL_GE} \<and> (x = NULL_VALUE \<or> y = NULL_VALUE))"
      by (auto simp: negatable_def)
    then show ?thesis using Evaluate_negate[OF assms(1,7,8) True b] e b by auto
  next
    case False
    then have o: "t_op t \<in> {WQL_LT, WQL_LE, WQL_GT, WQL_GE}" "x = NULL_VALUE \<or> y = NULL_VALUE"
      using assms(2,5,6) by (cases x; cases y; auto simp: negatable_def comparison_def)+
    then have "Evaluate X x y (negate_op (t_op t)) = Evaluate X x y (t_op t)"
      using assms(5,6) by (cases x; cases y) (auto simp: is_value_def)
    then show ?thesis using o e b by simp
  qed
qed

theorem negate_complements_witness:
  "\<exists>b. eval_term ex_ext (ex_source ex_props) (mk_term WQL_LE (PROPERTY_NAME ''Size'') (INTEGER_VALUE 9)) = Inr b \<and>
     eval_term ex_ext (ex_source ex_props) (negate (mk_term WQL_LE (PROPERTY_NAME ''Size'') (INTEGER_VALUE 9))) = Inr (\<not> b)"
  using negate_complements[OF ex_ext_ok, of "mk_term WQL_LE (PROPERTY_NAME ''Size'') (INTEGER_VALUE 9)" "ex_source ex_props"
      "INTEGER_VALUE 7" "INTEGER_VALUE 9"]
  by (simp add: ex_simps mk_term_def)

text \<open>
  C14: \<^verbatim>\<open>_sortTableau\<close> keeps what \<^verbatim>\<open>evaluate\<close> answers on every source on which the tests of the tableau
  have an answer. In the rows it leaves, a property name stands on the left whenever one operand is
  a property name, and no two neighbours are equal.
\<close>

theorem sortTableau_correct:
  assumes "ext_ok nz X" "\<forall>tr\<in>set (tableau c). \<forall>t\<in>set tr. on_core (test_ok X nz src) t"
  shows "evaluate X src (sortTableau X c) = evaluate X src c \<and>
     (\<forall>tr\<in>set (tableau (sortTableau X c)). successively (\<lambda>t u. \<not> term_eq X t u) tr \<and>
        (\<forall>t\<in>set tr. is_prop (t_opn2 t) \<longrightarrow> is_prop (t_opn1 t)))"
proof -
  have "\<forall>tr\<in>set (tableau (sortTableau X c)). \<forall>t\<in>set tr. on_core (test_ok X nz src) t"
    using assms sort_tableau_row_ok(1)[OF assms(1)] by (auto simp: sortTableau_def)
  from eval_rows_ok[OF this] have "evaluate X src (sortTableau X c) = evaluate X src c"
    using sort_tableau_row_ok(2)[OF assms(1)] assms(2) eval_rows_ok[OF assms(2)]
    by (auto simp: evaluate_def sortTableau_def)
  moreover have "successively (\<lambda>t u. \<not> term_eq X t u) (sort_tableau_row X tr)" for tr
    unfolding sort_tableau_row_def by (rule successively_unique_run)
  moreover have "is_prop (t_opn1 t)" if "t \<in> set (sort_tableau_row X tr)" "is_prop (t_opn2 t)" for t tr
    using sort_tableau_row_left[OF that] .
  ultimately show ?thesis by (auto simp: sortTableau_def)
qed

definition ex_tableau :: "int WQLCompile" where
  "ex_tableau = WQLCompile_new\<lparr>tableau :=
     [[mk_term WQL_GT (INTEGER_VALUE 9) (PROPERTY_NAME ''Size''), mk_term WQL_EQ (PROPERTY_NAME ''Name'') (STRING_VALUE ''hda''),
       mk_term WQL_LT (PROPERTY_NAME ''Size'') (INTEGER_VALUE 9)]]\<rparr>"

theorem sortTableau_correct_witness:
  "evaluate ex_ext (ex_source ex_props) (sortTableau ex_ext ex_tableau) = Inr True"
proof -
  have "\<forall>tr\<in>set (tableau ex_tableau). \<forall>t\<in>set tr. on_core (test_ok ex_ext (\<lambda>_. True) (ex_source ex_props)) t"
    by (simp add: ex_tableau_def mk_term_def ex_simps)
  moreover have "evaluate ex_ext (ex_source ex_props) ex_tableau = Inr True"
    by (simp add: ex_tableau_def evaluate_def eval_term_def mk_term_def ex_simps Compare_defs)
  ultimately show ?thesis using sortTableau_correct[OF ex_ext_ok] by metis
qed

text \<open>
  C26: \<^verbatim>\<open>_sortTableau\<close> does not sort a row of three: \<^verbatim>\<open>key1\<close> is not read again after an exchange. Of a row of
  tests on three properties of which the first has the greatest name it makes the row in the opposite
  order of the last two, in front of the first, whether or not that is their order.
\<close>

theorem sortTableau_unsorted:
  assumes "s_lt X p r" "s_lt X q r" "\<not> s_lt X r r" "p \<noteq> q" "p \<noteq> r" "is_value u" "is_value v" "is_value w"
    and "tableau c = [[mk_term a (PROPERTY_NAME r) u, mk_term b (PROPERTY_NAME p) v, mk_term d (PROPERTY_NAME q) w]]"
  shows "tableau (sortTableau X c) =
     [[mk_term d (PROPERTY_NAME q) w, mk_term b (PROPERTY_NAME p) v, mk_term a (PROPERTY_NAME r) u]]"
proof -
  have i: "[0..<3] = [0, 1, 2::nat]" "[1..<3] = [1, 2::nat]" "[2..<3] = [2::nat]" by (simp_all add: upt_rec)
  have n: "\<not> is_prop u" "\<not> is_prop v" "\<not> is_prop w" using assms(6-8) by (simp_all add: is_prop_def is_value_def)
  show ?thesis
    using assms(1-5) n unfolding assms(9) sortTableau_def
    by (simp add: sort_tableau_row_def turn_term_def sort_row_def swap_terms_def row_key_def mk_term_def Let_def i term_eq_def)
qed

theorem sortTableau_unsorted_witness:
  "map row_key (hd (tableau (sortTableau ex_ext (WQLCompile_new\<lparr>tableau :=
     [[mk_term WQL_EQ (PROPERTY_NAME ''c'') (INTEGER_VALUE 1), mk_term WQL_LT (PROPERTY_NAME ''a'') (INTEGER_VALUE 2),
       mk_term WQL_NE (PROPERTY_NAME ''b'') NULL_VALUE]]\<rparr>)))) = [''b'', ''a'', ''c'']"
  using sortTableau_unsorted[of ex_ext "''a''" "''c''" "''b''" "INTEGER_VALUE 1" "INTEGER_VALUE 2" NULL_VALUE
      "WQLCompile_new\<lparr>tableau :=
     [[mk_term WQL_EQ (PROPERTY_NAME ''c'') (INTEGER_VALUE 1), mk_term WQL_LT (PROPERTY_NAME ''a'') (INTEGER_VALUE 2),
       mk_term WQL_NE (PROPERTY_NAME ''b'') NULL_VALUE]]\<rparr>" WQL_EQ WQL_LT WQL_NE]
  by (simp add: ex_ext_def of_char_def is_value_def row_key_def is_prop_def)

end
