(* ===== verification/WQL_Ast.thy ===== *)
theory WQL_Ast
  imports Main
begin

text \<open>
  The syntax tree of a WQL statement, \<^verbatim>\<open>src/src/wql/OW_WQLAst.hpp\<close>: one datatype per abstract class and one
  constructor per concrete one, with the class's name and its fields in their order.

  A field that holds the text of a keyword or of a punctuation mark is left out: that text is fixed by
  the class and nothing reads it. A pointer that the code tests for null before it follows it is an
  option. The classes that refer to \<^verbatim>\<open>aExpr\<close> before it is declared take it as their parameter
  \<open>'a\<close>, and the type \<open>aExpr\<close> ties the knot.
\<close>

section \<open>Sequences, indirections and the arguments of functions\<close>

datatype (plugins del: transfer lifting) 'a exprSeq =
    exprSeq_aExpr 'a
  | exprSeq_exprSeq_COMMA_aExpr "'a exprSeq" 'a
  | exprSeq_exprSeq_USING_aExpr "'a exprSeq" 'a

datatype (plugins del: transfer lifting) 'a optIndirection =
    optIndirection_empty
  | optIndirection_optIndirection_LEFTBRACKET_aExpr_RIGHTBRACKET "'a optIndirection" 'a
  | optIndirection_optIndirection_LEFTBRACKET_aExpr_COLON_aExpr_RIGHTBRACKET "'a optIndirection" 'a 'a

datatype (plugins del: transfer lifting) 'a optExtract =
    optExtract_empty
  | optExtract_strExtractArg_FROM_aExpr string 'a

datatype (plugins del: transfer lifting) 'a substrFrom =
    substrFrom 'a

datatype (plugins del: transfer lifting) 'a substrFor =
    substrFor 'a

datatype (plugins del: transfer lifting) 'a optSubstrExpr =
    optSubstrExpr_empty
  | optSubstrExpr_aExpr_substrFrom_substrFor 'a "'a substrFrom" "'a substrFor"
  | optSubstrExpr_aExpr_substrFor_substrFrom 'a "'a substrFor" "'a substrFrom"
  | optSubstrExpr_aExpr_substrFrom 'a "'a substrFrom"
  | optSubstrExpr_aExpr_substrFor 'a "'a substrFor"
  | optSubstrExpr_exprSeq "'a exprSeq"

datatype (plugins del: transfer lifting) 'a trimExpr =
    trimExpr_aExpr_FROM_exprSeq 'a "'a exprSeq"
  | trimExpr_FROM_exprSeq "'a exprSeq"
  | trimExpr_exprSeq "'a exprSeq"

section \<open>Qualified names and rows\<close>

datatype (plugins del: transfer lifting) attrs =
    attrs_strAttrName string
  | attrs_attrs_PERIOD_strAttrName attrs string
  | attrs_attrs_PERIOD_ASTERISK attrs

datatype (plugins del: transfer lifting) 'a attr =
    attr string attrs "'a optIndirection option"

datatype (plugins del: transfer lifting) 'a rowDescriptor =
    rowDescriptor "'a list" 'a

datatype (plugins del: transfer lifting) 'a rowExpr =
    rowExpr "'a rowDescriptor" string "'a rowDescriptor"

section \<open>Constants\<close>

datatype (plugins del: transfer lifting) aExprConst =
    aExprConst_ICONST string
  | aExprConst_FCONST string
  | aExprConst_SCONST string
  | aExprConst_BITCONST string
  | aExprConst_HEXCONST string
  | aExprConst_TRUEP
  | aExprConst_FALSEP
  | aExprConst_NULLP

section \<open>Expressions\<close>

datatype (plugins del: transfer lifting) 'a bExpr =
    bExpr_cExpr "'a cExpr"
  | bExpr_PLUS_bExpr "'a bExpr"
  | bExpr_MINUS_bExpr "'a bExpr"
  | bExpr_BITINVERT_bExpr "'a bExpr"
  | bExpr_bExpr_PLUS_bExpr "'a bExpr" "'a bExpr"
  | bExpr_bExpr_MINUS_bExpr "'a bExpr" "'a bExpr"
  | bExpr_bExpr_ASTERISK_bExpr "'a bExpr" "'a bExpr"
  | bExpr_bExpr_SOLIDUS_bExpr "'a bExpr" "'a bExpr"
  | bExpr_bExpr_PERCENT_bExpr "'a bExpr" "'a bExpr"
  | bExpr_bExpr_BITAND_bExpr "'a bExpr" "'a bExpr"
  | bExpr_bExpr_BITOR_bExpr "'a bExpr" "'a bExpr"
  | bExpr_bExpr_BITSHIFTLEFT_bExpr "'a bExpr" "'a bExpr"
  | bExpr_bExpr_BITSHIFTRIGHT_bExpr "'a bExpr" "'a bExpr"
  | bExpr_bExpr_LESSTHAN_bExpr "'a bExpr" "'a bExpr"
  | bExpr_bExpr_LESSTHANOREQUALS_bExpr "'a bExpr" "'a bExpr"
  | bExpr_bExpr_GREATERTHAN_bExpr "'a bExpr" "'a bExpr"
  | bExpr_bExpr_GREATERTHANOREQUALS_bExpr "'a bExpr" "'a bExpr"
  | bExpr_bExpr_EQUALS_bExpr "'a bExpr" "'a bExpr"
  | bExpr_bExpr_NOTEQUALS_bExpr "'a bExpr" "'a bExpr"
  | bExpr_bExpr_CONCATENATION_bExpr "'a bExpr" "'a bExpr"
and 'a cExpr =
    cExpr_attr "'a attr"
  | cExpr_strColId_optIndirection string "'a optIndirection option"
  | cExpr_aExprConst aExprConst
  | cExpr_LEFTPAREN_aExpr_RIGHTPAREN 'a
  | cExpr_strFuncName_LEFTPAREN_RIGHTPAREN string
  | cExpr_strFuncName_LEFTPAREN_exprSeq_RIGHTPAREN string "'a exprSeq"
  | cExpr_strFuncName_LEFTPAREN_ALL_exprSeq_RIGHTPAREN string "'a exprSeq"
  | cExpr_strFuncName_LEFTPAREN_DISTINCT_exprSeq_RIGHTPAREN string "'a exprSeq"
  | cExpr_strFuncName_LEFTPAREN_ASTERISK_RIGHTPAREN string
  | cExpr_CURRENTDATE
  | cExpr_CURRENTTIME
  | cExpr_CURRENTTIME_LEFTPAREN_ICONST_RIGHTPAREN string
  | cExpr_CURRENTTIMESTAMP
  | cExpr_CURRENTTIMESTAMP_LEFTPAREN_ICONST_RIGHTPAREN string
  | cExpr_CURRENTUSER
  | cExpr_SESSIONUSER
  | cExpr_USER
  | cExpr_EXTRACT_LEFTPAREN_optExtract_RIGHTPAREN "'a optExtract"
  | cExpr_POSITION_LEFTPAREN_positionExpr_RIGHTPAREN "'a positionExpr"
  | cExpr_SUBSTRING_LEFTPAREN_optSubstrExpr_RIGHTPAREN "'a optSubstrExpr"
  | cExpr_TRIM_LEFTPAREN_LEADING_trimExpr_RIGHTPAREN "'a trimExpr"
  | cExpr_TRIM_LEFTPAREN_TRAILING_trimExpr_RIGHTPAREN "'a trimExpr"
  | cExpr_TRIM_LEFTPAREN_trimExpr_RIGHTPAREN "'a trimExpr"
and 'a positionExpr =
    positionExpr_bExpr_IN_bExpr "'a bExpr" "'a bExpr"
  | positionExpr_empty

datatype (plugins del: transfer lifting) aExpr =
    aExpr_cExpr "aExpr cExpr"
  | aExpr_aExpr_AT_TIME_ZONE_cExpr aExpr "aExpr cExpr"
  | aExpr_PLUS_aExpr aExpr
  | aExpr_MINUS_aExpr aExpr
  | aExpr_BITINVERT_aExpr aExpr
  | aExpr_aExpr_PLUS_aExpr aExpr aExpr
  | aExpr_aExpr_MINUS_aExpr aExpr aExpr
  | aExpr_aExpr_ASTERISK_aExpr aExpr aExpr
  | aExpr_aExpr_SOLIDUS_aExpr aExpr aExpr
  | aExpr_aExpr_PERCENT_aExpr aExpr aExpr
  | aExpr_aExpr_BITAND_aExpr aExpr aExpr
  | aExpr_aExpr_BITOR_aExpr aExpr aExpr
  | aExpr_aExpr_BITSHIFTLEFT_aExpr aExpr aExpr
  | aExpr_aExpr_BITSHIFTRIGHT_aExpr aExpr aExpr
  | aExpr_aExpr_LESSTHAN_aExpr aExpr aExpr
  | aExpr_aExpr_LESSTHANOREQUALS_aExpr aExpr aExpr
  | aExpr_aExpr_GREATERTHAN_aExpr aExpr aExpr
  | aExpr_aExpr_GREATERTHANOREQUALS_aExpr aExpr aExpr
  | aExpr_aExpr_EQUALS_aExpr aExpr aExpr
  | aExpr_aExpr_NOTEQUALS_aExpr aExpr aExpr
  | aExpr_aExpr_AND_aExpr aExpr aExpr
  | aExpr_aExpr_OR_aExpr aExpr aExpr
  | aExpr_NOT_aExpr aExpr
  | aExpr_aExpr_CONCATENATION_aExpr aExpr aExpr
  | aExpr_aExpr_LIKE_aExpr aExpr aExpr
  | aExpr_aExpr_LIKE_aExpr_ESCAPE_aExpr aExpr aExpr aExpr
  | aExpr_aExpr_NOT_LIKE_aExpr aExpr aExpr
  | aExpr_aExpr_NOT_LIKE_aExpr_ESCAPE_aExpr aExpr aExpr aExpr
  | aExpr_aExpr_ISNULL aExpr
  | aExpr_aExpr_IS_NULLP aExpr
  | aExpr_aExpr_NOTNULL aExpr
  | aExpr_aExpr_IS_NOT_NULLP aExpr
  | aExpr_aExpr_IS_TRUEP aExpr
  | aExpr_aExpr_IS_NOT_FALSEP aExpr
  | aExpr_aExpr_IS_FALSEP aExpr
  | aExpr_aExpr_IS_NOT_TRUEP aExpr
  | aExpr_aExpr_ISA_aExpr aExpr aExpr
  | aExpr_rowExpr "aExpr rowExpr"

section \<open>Clauses and tables\<close>

datatype (plugins del: transfer lifting) optDistinct =
    optDistinct_empty
  | optDistinct_DISTINCT
  | optDistinct_DISTINCT_ON_LEFTPAREN_exprSeq_RIGHTPAREN "aExpr exprSeq"
  | optDistinct_ALL

datatype (plugins del: transfer lifting) sortby =
    sortby aExpr string

datatype (plugins del: transfer lifting) sortClause =
    sortClause "sortby list"

datatype (plugins del: transfer lifting) optSortClause =
    optSortClause_empty
  | optSortClause_sortClause sortClause

datatype (plugins del: transfer lifting) optGroupClause =
    optGroupClause_empty
  | optGroupClause_GROUP_BY_exprSeq "aExpr exprSeq"

datatype (plugins del: transfer lifting) optHavingClause =
    optHavingClause_empty
  | optHavingClause_HAVING_aExpr aExpr

datatype (plugins del: transfer lifting) aliasClause =
    aliasClause_AS_strColId_LEFTPAREN_nameList_RIGHTPAREN string "string list"
  | aliasClause_AS_strColId string
  | aliasClause_strColId_LEFTPAREN_nameList_RIGHTPAREN string "string list"
  | aliasClause_strColId string

datatype (plugins del: transfer lifting) joinType =
    joinType_FULL_strOptJoinOuter string
  | joinType_LEFT_strOptJoinOuter string
  | joinType_RIGHT_strOptJoinOuter string
  | joinType_INNERP

datatype (plugins del: transfer lifting) joinQual =
    joinQual_USING_LEFTPAREN_nameList_RIGHTPAREN "string list"
  | joinQual_ON_aExpr aExpr

datatype (plugins del: transfer lifting) relationExpr =
    relationExpr_strRelationName string
  | relationExpr_strRelationName_ASTERISK string
  | relationExpr_ONLY_strRelationName string

datatype (plugins del: transfer lifting) tableRef =
    tableRef_relationExpr relationExpr
  | tableRef_relationExpr_aliasClause relationExpr aliasClause
  | tableRef_joinedTable joinedTable
  | tableRef_LEFTPAREN_joinedTable_RIGHTPAREN_aliasClause joinedTable aliasClause
and joinedTable =
    joinedTable_LEFTPAREN_joinedTable_RIGHTPAREN joinedTable
  | joinedTable_tableRef_CROSS_JOIN_tableRef tableRef tableRef
  | joinedTable_tableRef_UNIONJOIN_tableRef tableRef tableRef
  | joinedTable_tableRef_joinType_JOIN_tableRef_joinQual tableRef joinType tableRef joinQual
  | joinedTable_tableRef_JOIN_tableRef_joinQual tableRef tableRef joinQual
  | joinedTable_tableRef_NATURAL_joinType_JOIN_tableRef tableRef joinType tableRef
  | joinedTable_tableRef_NATURAL_JOIN_tableRef tableRef tableRef

datatype (plugins del: transfer lifting) optFromClause =
    optFromClause_empty
  | optFromClause_FROM_fromList "tableRef list"

datatype (plugins del: transfer lifting) optWhereClause =
    optWhereClause_empty
  | optWhereClause_WHERE_aExpr aExpr

datatype (plugins del: transfer lifting) targetEl =
    targetEl_aExpr_AS_strColLabel aExpr string
  | targetEl_aExpr aExpr
  | targetEl_strRelationName_PERIOD_ASTERISK string
  | targetEl_ASTERISK

datatype (plugins del: transfer lifting) updateTargetEl =
    updateTargetEl string "aExpr optIndirection" aExpr

section \<open>Statements\<close>

datatype (plugins del: transfer lifting) selectStmt =
    selectStmt "optDistinct option" "targetEl list" "optFromClause option" "optWhereClause option" "optGroupClause option" "optHavingClause option" "optSortClause option"

datatype (plugins del: transfer lifting) updateStmt =
    updateStmt string "updateTargetEl list" optWhereClause

datatype (plugins del: transfer lifting) deleteStmt =
    deleteStmt string optWhereClause

datatype (plugins del: transfer lifting) insertRest =
    insertRest_VALUES_LEFTPAREN_targetList_RIGHTPAREN "targetEl list"
  | insertRest_DEFAULT_VALUES
  | insertRest_LEFTPAREN_columnList_RIGHTPAREN_VALUES_LEFTPAREN_targetList_RIGHTPAREN "string list" "targetEl list"

datatype (plugins del: transfer lifting) insertStmt =
    insertStmt string insertRest

datatype (plugins del: transfer lifting) optSemicolon =
    optSemicolon_empty
  | optSemicolon_SEMICOLON

datatype (plugins del: transfer lifting) stmt =
    stmt_selectStmt_optSemicolon selectStmt "optSemicolon option"
  | stmt_updateStmt_optSemicolon updateStmt optSemicolon
  | stmt_insertStmt_optSemicolon insertStmt optSemicolon
  | stmt_deleteStmt_optSemicolon deleteStmt optSemicolon

end
