(* ===== verification/WQL_Gen.thy ===== *)
theory WQL_Gen
  imports WQL_Ast WQL_Statement
begin

text \<open>
  From a syntax tree to a select statement: \<^verbatim>\<open>WQLSelectStatementGen\<close>
  (\<^verbatim>\<open>src/src/wql/OW_WQLSelectStatementGen.cpp\<close>), the visitor that \<^verbatim>\<open>WQLImpl::createSelectStatement\<close> runs,
  and the unescaping of string literals (\<^verbatim>\<open>src/src/wql/OW_WQLScanUtils.cpp\<close>).

  \<^verbatim>\<open>acceptInterface\<close> calls the method of the node's class, so the methods for the classes of one
  abstract class are the equations of one function. The generator is the state passed along; an
  exception of the visitor ends its life, and so the state is dropped there. What the code takes from
  \<^verbatim>\<open>blocxx::String\<close> is a parameter \<open>L\<close> of type \<open>'r lit\<close>: the conversions to numbers, \<open>None\<close> where they throw
  \<^verbatim>\<open>StringConversionException\<close>, and the character that the index operator gives past the end.
\<close>

section \<open>String literals\<close>

record 'r lit =
  toInt64 :: "nat \<Rightarrow> string \<Rightarrow> 64 word option"
  toReal64 :: "string \<Rightarrow> 'r option"
  past_end :: char

definition char_at :: "char \<Rightarrow> string \<Rightarrow> nat \<Rightarrow> char" where
  "char_at z s i = (if i < length s then s ! i else z)"

definition octal_digit :: "char \<Rightarrow> bool" where
  "octal_digit c \<longleftrightarrow> (of_char c :: nat) \<ge> 48 \<and> (of_char c :: nat) \<le> 55"

text \<open>The loop over at most three octal digits from position \<open>i\<close>: how many there are, and their value.\<close>

function octal_value :: "char \<Rightarrow> string \<Rightarrow> nat \<Rightarrow> nat \<Rightarrow> nat \<Rightarrow> nat \<times> nat" where
  "octal_value z s i k v =
     (if k < 3 \<and> octal_digit (char_at z s (i + k))
      then octal_value z s i (Suc k) (v * 8 + (of_char (char_at z s (i + k)) - 48))
      else (k, v))"
  by pat_completeness auto
termination
  by (relation "measure (\<lambda>(z, s, i, k, v). 3 - k)") auto

declare octal_value.simps [simp del]

text \<open>The \<^verbatim>\<open>switch\<close> on the character after a backslash at position \<open>i\<close>: the next position, and the character.\<close>

definition unescape :: "char \<Rightarrow> string \<Rightarrow> nat \<Rightarrow> nat \<times> char" where
  "unescape z s i =
     (let c = char_at z s i in
      if c = CHR ''b'' then (i + 1, CHR 0x08)
      else if c = CHR ''f'' then (i + 1, CHR 0x0C)
      else if c = CHR ''n'' then (i + 1, CHR 0x0A)
      else if c = CHR ''r'' then (i + 1, CHR 0x0D)
      else if c = CHR ''t'' then (i + 1, CHR 0x09)
      else if octal_digit c then (let (k, v) = octal_value z s i 0 0 in (i + k, char_of v))
      else (i + 1, c))"

lemma octal_value_ge: "k \<le> fst (octal_value z s i k v)"
proof (induction z s i k v rule: octal_value.induct)
  case (1 z s i k v)
  then show ?case by (subst octal_value.simps) (auto dest: Suc_leD)
qed

lemma unescape_progress: "i < fst (unescape z s i)"
proof (cases "octal_digit (char_at z s i)")
  case True
  then have "octal_value z s i 0 0 = octal_value z s i 1 (of_char (char_at z s i) - 48)"
    by (subst octal_value.simps) simp
  then show ?thesis
    using octal_value_ge[of 1 z s i "of_char (char_at z s i) - 48"] by (auto simp: unescape_def Let_def split: prod.splits)
qed (simp add: unescape_def Let_def)

function unescape_from :: "char \<Rightarrow> string \<Rightarrow> nat \<Rightarrow> string" where
  "unescape_from z s i =
     (if i < length s then
        if s ! i = CHR 0x27 then char_at z s (i + 1) # unescape_from z s (i + 2)
        else if s ! i = CHR 0x5C then
          snd (unescape z s (i + 1)) # unescape_from z s (fst (unescape z s (i + 1)))
        else s ! i # unescape_from z s (i + 1)
      else [])"
  by pat_completeness auto
termination
proof (relation "measure (\<lambda>(z, s, i). length s - i)")
  fix z s and i :: nat
  show "i < length s \<Longrightarrow> s ! i \<noteq> CHR 0x27 \<Longrightarrow> s ! i = CHR 0x5C \<Longrightarrow>
      ((z, s, fst (unescape z s (i + 1))), z, s, i) \<in> measure (\<lambda>(z, s, i). length s - i)"
    using unescape_progress[of "i + 1" z s] by simp
qed auto

declare unescape_from.simps [simp del]

definition WQLRemoveStringEscapes :: "char \<Rightarrow> string \<Rightarrow> string" where
  "WQLRemoveStringEscapes z s = (if s = [] then s else unescape_from z s 0)"

section \<open>The generator\<close>

record 'r WQLSelectStatementGen =
  m_stmt :: "'r WQLSelectStatement"
  m_attrName :: string
  m_isPropertyList :: bool

definition WQLSelectStatementGen_new :: "'r WQLSelectStatementGen" where
  "WQLSelectStatementGen_new = \<lparr>m_stmt = WQLSelectStatement_new, m_attrName = [], m_isPropertyList = False\<rparr>"

definition on_stmt :: "('r WQLSelectStatement \<Rightarrow> 'r WQLSelectStatement) \<Rightarrow>
    'r WQLSelectStatementGen \<Rightarrow> 'r WQLSelectStatementGen" where
  "on_stmt f g = g\<lparr>m_stmt := f (m_stmt g)\<rparr>"

definition push_operand_or_throw :: "'r WQLOperand option \<Rightarrow> 'r WQLSelectStatementGen \<Rightarrow> 'r WQLSelectStatementGen result" where
  "push_operand_or_throw v g = (case v of None \<Rightarrow> Inl InvalidQuery | Some x \<Rightarrow> Inr (on_stmt (appendOperand x) g))"

fun visit_aExprConst :: "'r lit \<Rightarrow> aExprConst \<Rightarrow> 'r WQLSelectStatementGen \<Rightarrow> 'r WQLSelectStatementGen result" where
  "visit_aExprConst L (aExprConst_ICONST s) g = push_operand_or_throw (map_option INTEGER_VALUE (toInt64 L 10 s)) g"
| "visit_aExprConst L (aExprConst_FCONST s) g = push_operand_or_throw (map_option DOUBLE_VALUE (toReal64 L s)) g"
| "visit_aExprConst L (aExprConst_SCONST s) g =
     Inr (on_stmt (appendOperand (STRING_VALUE (WQLRemoveStringEscapes (past_end L) s))) g)"
| "visit_aExprConst L (aExprConst_BITCONST s) g = push_operand_or_throw (map_option INTEGER_VALUE (toInt64 L 2 s)) g"
| "visit_aExprConst L (aExprConst_HEXCONST s) g = push_operand_or_throw (map_option INTEGER_VALUE (toInt64 L 16 s)) g"
| "visit_aExprConst L aExprConst_TRUEP g = Inr (on_stmt (appendOperand (BOOLEAN_VALUE True)) g)"
| "visit_aExprConst L aExprConst_FALSEP g = Inr (on_stmt (appendOperand (BOOLEAN_VALUE False)) g)"
| "visit_aExprConst L aExprConst_NULLP g = Inr (on_stmt (appendOperand NULL_VALUE) g)"

fun visit_attrs :: "attrs \<Rightarrow> 'r WQLSelectStatementGen \<Rightarrow> 'r WQLSelectStatementGen" where
  "visit_attrs (attrs_strAttrName n) g = g\<lparr>m_attrName := m_attrName g @ ''.'' @ n\<rparr>"
| "visit_attrs (attrs_attrs_PERIOD_strAttrName a n) g =
     (let g' = visit_attrs a g in g'\<lparr>m_attrName := m_attrName g' @ ''.'' @ n\<rparr>)"
| "visit_attrs (attrs_attrs_PERIOD_ASTERISK a) g =
     (let g' = visit_attrs a g in g'\<lparr>m_attrName := m_attrName g' @ ''.*''\<rparr>)"

fun visit_optIndirection :: "'a optIndirection \<Rightarrow> 'r WQLSelectStatementGen \<Rightarrow> 'r WQLSelectStatementGen result" where
  "visit_optIndirection optIndirection_empty g = Inr g"
| "visit_optIndirection _ g = Inl InvalidQuery"

definition visit_ptr :: "('a \<Rightarrow> 'g \<Rightarrow> 'g result) \<Rightarrow> 'a option \<Rightarrow> 'g \<Rightarrow> 'g result" where
  "visit_ptr visit p g = (case p of None \<Rightarrow> Inr g | Some x \<Rightarrow> visit x g)"

text \<open>The two branches on \<^verbatim>\<open>m_isPropertyList\<close> for the name of a property.\<close>

definition append_name :: "string \<Rightarrow> 'r WQLSelectStatementGen \<Rightarrow> 'r WQLSelectStatementGen" where
  "append_name n g =
     (if m_isPropertyList g then on_stmt (appendSelectPropertyName n) g
      else on_stmt (\<lambda>s. snd (appendWherePropertyName n (appendOperand (PROPERTY_NAME n) s))) g)"

fun visit_attr :: "'a attr \<Rightarrow> 'r WQLSelectStatementGen \<Rightarrow> 'r WQLSelectStatementGen result" where
  "visit_attr (attr r a i) g =
     (let g' = visit_attrs a (g\<lparr>m_attrName := r\<rparr>) in
      visit_ptr visit_optIndirection i (append_name (m_attrName g') g'))"

text \<open>
  Expressions. A node whose method throws \<^verbatim>\<open>INVALID_QUERY\<close> has no equation of its own: the last equation of
  each function stands for all of them.
\<close>

function (sequential) visit_aExpr :: "'r lit \<Rightarrow> aExpr \<Rightarrow> 'r WQLSelectStatementGen \<Rightarrow> 'r WQLSelectStatementGen result"
  and visit_cExpr :: "'r lit \<Rightarrow> aExpr cExpr \<Rightarrow> 'r WQLSelectStatementGen \<Rightarrow> 'r WQLSelectStatementGen result" where
  "visit_aExpr L (aExpr_cExpr c) g = visit_cExpr L c g"
| "visit_aExpr L (aExpr_aExpr_LESSTHAN_aExpr a b) g =
     bind_r (visit_aExpr L a g) (\<lambda>g. bind_r (visit_aExpr L b g) (\<lambda>g. Inr (on_stmt (appendOperation WQL_LT) g)))"
| "visit_aExpr L (aExpr_aExpr_LESSTHANOREQUALS_aExpr a b) g =
     bind_r (visit_aExpr L a g) (\<lambda>g. bind_r (visit_aExpr L b g) (\<lambda>g. Inr (on_stmt (appendOperation WQL_LE) g)))"
| "visit_aExpr L (aExpr_aExpr_GREATERTHAN_aExpr a b) g =
     bind_r (visit_aExpr L a g) (\<lambda>g. bind_r (visit_aExpr L b g) (\<lambda>g. Inr (on_stmt (appendOperation WQL_GT) g)))"
| "visit_aExpr L (aExpr_aExpr_GREATERTHANOREQUALS_aExpr a b) g =
     bind_r (visit_aExpr L a g) (\<lambda>g. bind_r (visit_aExpr L b g) (\<lambda>g. Inr (on_stmt (appendOperation WQL_GE) g)))"
| "visit_aExpr L (aExpr_aExpr_EQUALS_aExpr a b) g =
     bind_r (visit_aExpr L a g) (\<lambda>g. bind_r (visit_aExpr L b g) (\<lambda>g. Inr (on_stmt (appendOperation WQL_EQ) g)))"
| "visit_aExpr L (aExpr_aExpr_NOTEQUALS_aExpr a b) g =
     bind_r (visit_aExpr L a g) (\<lambda>g. bind_r (visit_aExpr L b g) (\<lambda>g. Inr (on_stmt (appendOperation WQL_NE) g)))"
| "visit_aExpr L (aExpr_aExpr_AND_aExpr a b) g =
     bind_r (visit_aExpr L a g) (\<lambda>g. bind_r (visit_aExpr L b g) (\<lambda>g. Inr (on_stmt (appendOperation WQL_AND) g)))"
| "visit_aExpr L (aExpr_aExpr_OR_aExpr a b) g =
     bind_r (visit_aExpr L a g) (\<lambda>g. bind_r (visit_aExpr L b g) (\<lambda>g. Inr (on_stmt (appendOperation WQL_OR) g)))"
| "visit_aExpr L (aExpr_aExpr_ISA_aExpr a b) g =
     bind_r (visit_aExpr L a g) (\<lambda>g. bind_r (visit_aExpr L b g) (\<lambda>g. Inr (on_stmt (appendOperation WQL_ISA) g)))"
| "visit_aExpr L (aExpr_NOT_aExpr a) g =
     bind_r (visit_aExpr L a g) (\<lambda>g. Inr (on_stmt (appendOperation WQL_NOT) g))"
| "visit_aExpr L (aExpr_aExpr_ISNULL a) g =
     bind_r (visit_aExpr L a g) (\<lambda>g. Inr (on_stmt (appendOperation WQL_EQ \<circ> appendOperand NULL_VALUE) g))"
| "visit_aExpr L (aExpr_aExpr_IS_NULLP a) g =
     bind_r (visit_aExpr L a g) (\<lambda>g. Inr (on_stmt (appendOperation WQL_EQ \<circ> appendOperand NULL_VALUE) g))"
| "visit_aExpr L (aExpr_aExpr_NOTNULL a) g =
     bind_r (visit_aExpr L a g) (\<lambda>g. Inr (on_stmt (appendOperation WQL_NE \<circ> appendOperand NULL_VALUE) g))"
| "visit_aExpr L (aExpr_aExpr_IS_NOT_NULLP a) g =
     bind_r (visit_aExpr L a g) (\<lambda>g. Inr (on_stmt (appendOperation WQL_NE \<circ> appendOperand NULL_VALUE) g))"
| "visit_aExpr L (aExpr_aExpr_IS_TRUEP a) g =
     bind_r (visit_aExpr L a g) (\<lambda>g. Inr (on_stmt (appendOperation WQL_EQ \<circ> appendOperand (BOOLEAN_VALUE True)) g))"
| "visit_aExpr L (aExpr_aExpr_IS_NOT_FALSEP a) g =
     bind_r (visit_aExpr L a g) (\<lambda>g. Inr (on_stmt (appendOperation WQL_NE \<circ> appendOperand (BOOLEAN_VALUE False)) g))"
| "visit_aExpr L (aExpr_aExpr_IS_FALSEP a) g =
     bind_r (visit_aExpr L a g) (\<lambda>g. Inr (on_stmt (appendOperation WQL_EQ \<circ> appendOperand (BOOLEAN_VALUE False)) g))"
| "visit_aExpr L (aExpr_aExpr_IS_NOT_TRUEP a) g =
     bind_r (visit_aExpr L a g) (\<lambda>g. Inr (on_stmt (appendOperation WQL_NE \<circ> appendOperand (BOOLEAN_VALUE True)) g))"
| "visit_aExpr L _ g = Inl InvalidQuery"
| "visit_cExpr L (cExpr_attr a) g = visit_attr a g"
| "visit_cExpr L (cExpr_strColId_optIndirection n i) g = visit_ptr visit_optIndirection i (append_name n g)"
| "visit_cExpr L (cExpr_aExprConst k) g = visit_aExprConst L k g"
| "visit_cExpr L (cExpr_LEFTPAREN_aExpr_RIGHTPAREN a) g = visit_aExpr L a g"
| "visit_cExpr L _ g = Inl InvalidQuery"
  by pat_completeness auto
termination
  by (relation "measure (\<lambda>x. case x of Inl (_, a, _) \<Rightarrow> size a | Inr (_, c, _) \<Rightarrow> size_cExpr size c)") auto

fun visit_bExpr :: "'r lit \<Rightarrow> aExpr bExpr \<Rightarrow> 'r WQLSelectStatementGen \<Rightarrow> 'r WQLSelectStatementGen result" where
  "visit_bExpr L (bExpr_cExpr c) g = visit_cExpr L c g"
| "visit_bExpr L _ g = Inl InvalidQuery"

text \<open>The clauses.\<close>

fun visit_optDistinct :: "optDistinct \<Rightarrow> 'r WQLSelectStatementGen \<Rightarrow> 'r WQLSelectStatementGen result" where
  "visit_optDistinct optDistinct_empty g = Inr g"
| "visit_optDistinct _ g = Inl InvalidQuery"

fun visit_optSortClause :: "optSortClause \<Rightarrow> 'r WQLSelectStatementGen \<Rightarrow> 'r WQLSelectStatementGen result" where
  "visit_optSortClause optSortClause_empty g = Inr g"
| "visit_optSortClause (optSortClause_sortClause _) g = Inl InvalidQuery"

fun visit_optGroupClause :: "optGroupClause \<Rightarrow> 'r WQLSelectStatementGen \<Rightarrow> 'r WQLSelectStatementGen result" where
  "visit_optGroupClause optGroupClause_empty g = Inr g"
| "visit_optGroupClause (optGroupClause_GROUP_BY_exprSeq _) g = Inl InvalidQuery"

fun visit_optHavingClause :: "optHavingClause \<Rightarrow> 'r WQLSelectStatementGen \<Rightarrow> 'r WQLSelectStatementGen result" where
  "visit_optHavingClause optHavingClause_empty g = Inl InvalidQuery"
| "visit_optHavingClause (optHavingClause_HAVING_aExpr _) g = Inl InvalidQuery"

fun visit_relationExpr :: "relationExpr \<Rightarrow> 'r WQLSelectStatementGen \<Rightarrow> 'r WQLSelectStatementGen result" where
  "visit_relationExpr (relationExpr_strRelationName n) g = Inr (on_stmt (setClassName n) g)"
| "visit_relationExpr _ g = Inl InvalidQuery"

fun visit_tableRef :: "tableRef \<Rightarrow> 'r WQLSelectStatementGen \<Rightarrow> 'r WQLSelectStatementGen result" where
  "visit_tableRef (tableRef_relationExpr r) g = visit_relationExpr r g"
| "visit_tableRef _ g = Inl InvalidQuery"

text \<open>The loop over the tables, from the position \<open>count\<close> on.\<close>

fun visit_fromList :: "nat \<Rightarrow> tableRef list \<Rightarrow> 'r WQLSelectStatementGen \<Rightarrow> 'r WQLSelectStatementGen result" where
  "visit_fromList count [] g = Inr g"
| "visit_fromList count (t # ts) g =
     bind_r (visit_tableRef t g) (\<lambda>g. if count \<noteq> 0 then Inl InvalidQuery else visit_fromList (Suc count) ts g)"

fun visit_optFromClause :: "optFromClause \<Rightarrow> 'r WQLSelectStatementGen \<Rightarrow> 'r WQLSelectStatementGen result" where
  "visit_optFromClause optFromClause_empty g = Inl InvalidQuery"
| "visit_optFromClause (optFromClause_FROM_fromList ts) g = visit_fromList 0 ts g"

fun visit_optWhereClause :: "'r lit \<Rightarrow> optWhereClause \<Rightarrow> 'r WQLSelectStatementGen \<Rightarrow> 'r WQLSelectStatementGen result" where
  "visit_optWhereClause L optWhereClause_empty g = Inr g"
| "visit_optWhereClause L (optWhereClause_WHERE_aExpr a) g = visit_aExpr L a g"

fun visit_targetEl :: "'r lit \<Rightarrow> targetEl \<Rightarrow> 'r WQLSelectStatementGen \<Rightarrow> 'r WQLSelectStatementGen result" where
  "visit_targetEl L (targetEl_aExpr_AS_strColLabel _ _) g = Inl InvalidQuery"
| "visit_targetEl L (targetEl_aExpr a) g =
     bind_r (visit_aExpr L a (g\<lparr>m_isPropertyList := True\<rparr>)) (\<lambda>g. Inr (g\<lparr>m_isPropertyList := False\<rparr>))"
| "visit_targetEl L (targetEl_strRelationName_PERIOD_ASTERISK n) g = Inr (on_stmt (appendSelectPropertyName (n @ ''.*'')) g)"
| "visit_targetEl L targetEl_ASTERISK g = Inr (on_stmt (appendSelectPropertyName ''*'') g)"

fun visit_selectStmt :: "'r lit \<Rightarrow> selectStmt \<Rightarrow> 'r WQLSelectStatementGen \<Rightarrow> 'r WQLSelectStatementGen result" where
  "visit_selectStmt L (selectStmt distinct2 targets from4 where5 group6 having7 sort8) g =
     bind_r (visit_ptr visit_optDistinct distinct2 g) (\<lambda>g.
     bind_r (visit_ptr visit_optGroupClause group6 g) (\<lambda>g.
     bind_r (visit_ptr visit_optHavingClause having7 g) (\<lambda>g.
     bind_r (visit_ptr visit_optSortClause sort8 g) (\<lambda>g.
     bind_r (visit_ptr visit_optFromClause from4 (on_stmt stmt_clear g)) (\<lambda>g.
     bind_r (visit_ptr (visit_optWhereClause L) where5 g) (\<lambda>g.
     fold_r (visit_targetEl L) targets g))))))"

fun visit_optSemicolon :: "optSemicolon \<Rightarrow> 'r WQLSelectStatementGen \<Rightarrow> 'r WQLSelectStatementGen result" where
  "visit_optSemicolon optSemicolon_empty g = Inr g"
| "visit_optSemicolon optSemicolon_SEMICOLON g = Inr g"

fun visit_stmt :: "'r lit \<Rightarrow> stmt \<Rightarrow> 'r WQLSelectStatementGen \<Rightarrow> 'r WQLSelectStatementGen result" where
  "visit_stmt L (stmt_selectStmt_optSemicolon s semi) g =
     bind_r (visit_selectStmt L s g) (visit_ptr visit_optSemicolon semi)"
| "visit_stmt L (stmt_updateStmt_optSemicolon _ _) g = Inl InvalidQuery"
| "visit_stmt L (stmt_insertStmt_optSemicolon _ _) g = Inl InvalidQuery"
| "visit_stmt L (stmt_deleteStmt_optSemicolon _ _) g = Inl InvalidQuery"

text \<open>
  \<^verbatim>\<open>WQLImpl::createSelectStatement\<close>. The parser is generated from \<^verbatim>\<open>OW_WQLParser.yy\<close> and is a parameter: it gives
  \<open>None\<close> where \<^verbatim>\<open>owwqlparse\<close> fails, and otherwise the pointer it leaves in \<^verbatim>\<open>s_statement\<close>.
\<close>

definition createSelectStatement :: "(string \<Rightarrow> stmt option option) \<Rightarrow> 'r lit \<Rightarrow> string \<Rightarrow> 'r WQLSelectStatement result" where
  "createSelectStatement parse L query =
     (case parse query of
        None \<Rightarrow> Inl InvalidQuery
      | Some pAST \<Rightarrow> bind_r (visit_ptr (visit_stmt L) pAST WQLSelectStatementGen_new) (\<lambda>g. Inr (m_stmt g)))"

end
