(* ===== verification/WQL_GenCorrect.thy ===== *)
theory WQL_GenCorrect
  imports WQL_Gen
begin

text \<open>
  What the select-statement generator makes of a syntax tree. \<open>den_aExpr\<close> says which operand or which where
  clause an expression stands for; the generator appends its postfix form to the operand stack, lists the
  properties of the where clause once each, and collects the names of the select list. What it cannot represent it
  rejects, with \<^verbatim>\<open>CIMException::INVALID_QUERY\<close> and with no other exception.
\<close>

section \<open>String literals\<close>

text \<open>How a string is written between quotes: quotes and backslashes are doubled.\<close>

fun wql_quote :: "string \<Rightarrow> string" where
  "wql_quote [] = []"
| "wql_quote (c # s) = (if c = CHR 0x27 \<or> c = CHR 0x5C then [c, c] else [c]) @ wql_quote s"

lemma drop_Cons: "drop i s = c # r \<longleftrightarrow> i < length s \<and> s ! i = c \<and> drop (Suc i) s = r"
proof (cases "i < length s")
  case True
  then show ?thesis using Cons_nth_drop_Suc[OF True] by auto
qed simp

lemma unescape_backslash: "i < length s \<Longrightarrow> s ! i = CHR 0x5C \<Longrightarrow> unescape z s i = (i + 1, CHR 0x5C)"
  by (simp add: unescape_def char_at_def octal_digit_def of_char_def)

lemma unescape_from_quote: "drop i s = wql_quote t \<Longrightarrow> unescape_from z s i = t"
proof (induction t arbitrary: i)
  case Nil
  then show ?case by (subst unescape_from.simps) simp
next
  case (Cons c t)
  show ?case
  proof (cases "c = CHR 0x27 \<or> c = CHR 0x5C")
    case True
    with Cons.prems have *: "i < length s" "s ! i = c" "Suc i < length s" "s ! Suc i = c" "drop (Suc (Suc i)) s = wql_quote t"
      by (auto simp: drop_Cons)
    with True Cons.IH[OF *(5)] show ?thesis
      by (subst unescape_from.simps) (auto simp: char_at_def unescape_backslash)
  next
    case False
    with Cons.prems have *: "i < length s" "s ! i = c" "drop (Suc i) s = wql_quote t" by (auto simp: drop_Cons)
    with False Cons.IH[OF *(3)] show ?thesis by (subst unescape_from.simps) auto
  qed
qed

lemma WQLRemoveStringEscapes_quote: "WQLRemoveStringEscapes z (wql_quote s) = s"
  using unescape_from_quote[of 0 "wql_quote s" s z] by (cases s) (auto simp: WQLRemoveStringEscapes_def)

section \<open>What an expression stands for\<close>

text \<open>
  An expression of the where clause stands for an operand or for a clause; the other ones, which the
  generator rejects or to which the evaluators give no meaning, stand for nothing.
\<close>

datatype 'r den = Operand "'r WQLOperand" | Clause "'r wexpr"

fun den_test :: "WQLOperation \<Rightarrow> 'r den option \<Rightarrow> 'r den option \<Rightarrow> 'r den option" where
  "den_test op (Some (Operand x)) (Some (Operand y)) = Some (Clause (Cmp op x y))"
| "den_test op _ _ = None"

fun den_join :: "junct \<Rightarrow> 'r den option \<Rightarrow> 'r den option \<Rightarrow> 'r den option" where
  "den_join j (Some (Clause x)) (Some (Clause y)) = Some (Clause (Join j x y))"
| "den_join j _ _ = None"

fun den_not :: "'r den option \<Rightarrow> 'r den option" where
  "den_not (Some (Clause x)) = Some (Clause (Not x))"
| "den_not _ = None"

fun den_const :: "'r lit \<Rightarrow> aExprConst \<Rightarrow> 'r WQLOperand option" where
  "den_const L (aExprConst_ICONST s) = map_option INTEGER_VALUE (toInt64 L 10 s)"
| "den_const L (aExprConst_FCONST s) = map_option DOUBLE_VALUE (toReal64 L s)"
| "den_const L (aExprConst_SCONST s) = Some (STRING_VALUE (WQLRemoveStringEscapes (past_end L) s))"
| "den_const L (aExprConst_BITCONST s) = map_option INTEGER_VALUE (toInt64 L 2 s)"
| "den_const L (aExprConst_HEXCONST s) = map_option INTEGER_VALUE (toInt64 L 16 s)"
| "den_const L aExprConst_TRUEP = Some (BOOLEAN_VALUE True)"
| "den_const L aExprConst_FALSEP = Some (BOOLEAN_VALUE False)"
| "den_const L aExprConst_NULLP = Some NULL_VALUE"

fun attrs_name :: "attrs \<Rightarrow> string" where
  "attrs_name (attrs_strAttrName n) = ''.'' @ n"
| "attrs_name (attrs_attrs_PERIOD_strAttrName a n) = attrs_name a @ ''.'' @ n"
| "attrs_name (attrs_attrs_PERIOD_ASTERISK a) = attrs_name a @ ''.*''"

definition plain :: "'a optIndirection option \<Rightarrow> bool" where
  "plain i \<longleftrightarrow> (case i of None \<Rightarrow> True | Some optIndirection_empty \<Rightarrow> True | _ \<Rightarrow> False)"

fun attr_name :: "'a attr \<Rightarrow> string option" where
  "attr_name (attr r a i) = (if plain i then Some (r @ attrs_name a) else None)"

function (sequential) den_aExpr :: "'r lit \<Rightarrow> aExpr \<Rightarrow> 'r den option"
  and den_cExpr :: "'r lit \<Rightarrow> aExpr cExpr \<Rightarrow> 'r den option" where
  "den_aExpr L (aExpr_cExpr c) = den_cExpr L c"
| "den_aExpr L (aExpr_aExpr_LESSTHAN_aExpr a b) = den_test WQL_LT (den_aExpr L a) (den_aExpr L b)"
| "den_aExpr L (aExpr_aExpr_LESSTHANOREQUALS_aExpr a b) = den_test WQL_LE (den_aExpr L a) (den_aExpr L b)"
| "den_aExpr L (aExpr_aExpr_GREATERTHAN_aExpr a b) = den_test WQL_GT (den_aExpr L a) (den_aExpr L b)"
| "den_aExpr L (aExpr_aExpr_GREATERTHANOREQUALS_aExpr a b) = den_test WQL_GE (den_aExpr L a) (den_aExpr L b)"
| "den_aExpr L (aExpr_aExpr_EQUALS_aExpr a b) = den_test WQL_EQ (den_aExpr L a) (den_aExpr L b)"
| "den_aExpr L (aExpr_aExpr_NOTEQUALS_aExpr a b) = den_test WQL_NE (den_aExpr L a) (den_aExpr L b)"
| "den_aExpr L (aExpr_aExpr_ISA_aExpr a b) = den_test WQL_ISA (den_aExpr L a) (den_aExpr L b)"
| "den_aExpr L (aExpr_aExpr_AND_aExpr a b) = den_join Conj (den_aExpr L a) (den_aExpr L b)"
| "den_aExpr L (aExpr_aExpr_OR_aExpr a b) = den_join Disj (den_aExpr L a) (den_aExpr L b)"
| "den_aExpr L (aExpr_NOT_aExpr a) = den_not (den_aExpr L a)"
| "den_aExpr L (aExpr_aExpr_ISNULL a) = den_test WQL_EQ (den_aExpr L a) (Some (Operand NULL_VALUE))"
| "den_aExpr L (aExpr_aExpr_IS_NULLP a) = den_test WQL_EQ (den_aExpr L a) (Some (Operand NULL_VALUE))"
| "den_aExpr L (aExpr_aExpr_NOTNULL a) = den_test WQL_NE (den_aExpr L a) (Some (Operand NULL_VALUE))"
| "den_aExpr L (aExpr_aExpr_IS_NOT_NULLP a) = den_test WQL_NE (den_aExpr L a) (Some (Operand NULL_VALUE))"
| "den_aExpr L (aExpr_aExpr_IS_TRUEP a) = den_test WQL_EQ (den_aExpr L a) (Some (Operand (BOOLEAN_VALUE True)))"
| "den_aExpr L (aExpr_aExpr_IS_NOT_FALSEP a) = den_test WQL_NE (den_aExpr L a) (Some (Operand (BOOLEAN_VALUE False)))"
| "den_aExpr L (aExpr_aExpr_IS_FALSEP a) = den_test WQL_EQ (den_aExpr L a) (Some (Operand (BOOLEAN_VALUE False)))"
| "den_aExpr L (aExpr_aExpr_IS_NOT_TRUEP a) = den_test WQL_NE (den_aExpr L a) (Some (Operand (BOOLEAN_VALUE True)))"
| "den_aExpr L _ = None"
| "den_cExpr L (cExpr_attr a) = map_option (Operand \<circ> PROPERTY_NAME) (attr_name a)"
| "den_cExpr L (cExpr_strColId_optIndirection n i) = (if plain i then Some (Operand (PROPERTY_NAME n)) else None)"
| "den_cExpr L (cExpr_aExprConst k) = map_option Operand (den_const L k)"
| "den_cExpr L (cExpr_LEFTPAREN_aExpr_RIGHTPAREN a) = den_aExpr L a"
| "den_cExpr L _ = None"
  by pat_completeness auto
termination
  by (relation "measure (\<lambda>x. case x of Inl (_, a) \<Rightarrow> size a | Inr (_, c) \<Rightarrow> size_cExpr size c)") auto

fun den_postfix :: "'r den \<Rightarrow> 'r OperandOrOperation list" where
  "den_postfix (Operand x) = [OPERAND x]"
| "den_postfix (Clause w) = postfix w"

definition operand_props :: "'r WQLOperand \<Rightarrow> string set" where
  "operand_props x = (case x of PROPERTY_NAME p \<Rightarrow> {p} | _ \<Rightarrow> {})"

definition clause_props :: "'r wexpr \<Rightarrow> string set" where
  "clause_props w = (\<Union>(op, l, r)\<in>cmps w. operand_props l \<union> operand_props r)"

fun den_props :: "'r den \<Rightarrow> string set" where
  "den_props (Operand x) = operand_props x"
| "den_props (Clause w) = clause_props w"

section \<open>The where clause\<close>

text \<open>The generator appends \<open>items\<close> to the operand stack, and notes the properties \<open>ps\<close>.\<close>

definition gen_app :: "'r OperandOrOperation list \<Rightarrow> string set \<Rightarrow>
    'r WQLSelectStatementGen \<Rightarrow> 'r WQLSelectStatementGen \<Rightarrow> bool" where
  "gen_app items ps g g' \<longleftrightarrow> \<not> m_isPropertyList g' \<and>
     operStack (m_stmt g') = operStack (m_stmt g) @ items \<and> stmt_className (m_stmt g') = stmt_className (m_stmt g) \<and>
     selectPropertyNames (m_stmt g') = selectPropertyNames (m_stmt g) \<and>
     set (wherePropertyNames (m_stmt g')) = set (wherePropertyNames (m_stmt g)) \<union> ps \<and>
     (distinct (wherePropertyNames (m_stmt g)) \<longrightarrow> distinct (wherePropertyNames (m_stmt g')))"

lemma gen_app_trans: "gen_app xs ps g g' \<Longrightarrow> gen_app ys qs g' g'' \<Longrightarrow> gen_app (xs @ ys) (ps \<union> qs) g g''"
  by (auto simp: gen_app_def)

lemma gen_app_operation: "\<not> m_isPropertyList g \<Longrightarrow> gen_app [OPERATION op] {} g (on_stmt (appendOperation op) g)"
  by (simp add: gen_app_def on_stmt_def appendOperation_def)

lemma gen_app_operand:
  "\<not> m_isPropertyList g \<Longrightarrow> getType x \<noteq> T_PROPERTY_NAME \<Longrightarrow>
   gen_app [OPERAND x] (operand_props x) g (on_stmt (appendOperand x) g)"
  by (cases x) (auto simp: gen_app_def on_stmt_def appendOperand_def operand_props_def)

lemma gen_app_name: "\<not> m_isPropertyList g \<Longrightarrow> gen_app [OPERAND (PROPERTY_NAME n)] {n} g (append_name n g)"
  using appendWherePropertyName_distinct[of "appendOperand (PROPERTY_NAME n) (m_stmt g)" n]
  by (auto simp: gen_app_def append_name_def on_stmt_def appendOperand_def)

lemma gen_app_attrName [simp]: "gen_app xs ps (g\<lparr>m_attrName := n\<rparr>) g' \<longleftrightarrow> gen_app xs ps g g'"
  by (simp add: gen_app_def)

lemma visit_attrs_name: "visit_attrs a g = g\<lparr>m_attrName := m_attrName g @ attrs_name a\<rparr>"
  by (induction a arbitrary: g) (auto simp: Let_def)

lemma visit_plain: "plain i \<Longrightarrow> visit_ptr visit_optIndirection i g = Inr g"
  by (auto simp: plain_def visit_ptr_def split: option.splits optIndirection.splits)

lemma visit_aExprConst_den: "den_const L k = Some x \<Longrightarrow> visit_aExprConst L k g = Inr (on_stmt (appendOperand x) g)"
  by (cases k) (auto simp: push_operand_or_throw_def)

lemma den_const_type: "den_const L k = Some x \<Longrightarrow> getType x \<noteq> T_PROPERTY_NAME"
  by (cases k) auto

text \<open>Visiting the expression \<open>e\<close> appends what \<open>e\<close> stands for.\<close>

definition gens :: "('r WQLSelectStatementGen \<Rightarrow> 'r WQLSelectStatementGen result) \<Rightarrow> 'r den option \<Rightarrow> bool" where
  "gens visit d \<longleftrightarrow> (\<forall>x g. d = Some x \<longrightarrow> \<not> m_isPropertyList g \<longrightarrow>
     (\<exists>g'. visit g = Inr g' \<and> gen_app (den_postfix x) (den_props x) g g'))"

lemma gensD: "gens visit (Some x) \<Longrightarrow> \<not> m_isPropertyList g \<Longrightarrow> \<exists>g'. visit g = Inr g' \<and> gen_app (den_postfix x) (den_props x) g g'"
  by (simp add: gens_def)

lemma gens_binary:
  assumes a: "gens va (Some x)" and b: "gens vb (Some y)" and g: "\<not> m_isPropertyList g"
  shows "\<exists>g'. bind_r (va g) (\<lambda>g. bind_r (vb g) (\<lambda>g. Inr (on_stmt (appendOperation op) g))) = Inr g' \<and>
     gen_app (den_postfix x @ den_postfix y @ [OPERATION op]) (den_props x \<union> den_props y) g g'"
proof -
  obtain g1 where 1: "va g = Inr g1" "gen_app (den_postfix x) (den_props x) g g1" using gensD[OF a g] by blast
  then have g1: "\<not> m_isPropertyList g1" by (simp add: gen_app_def)
  obtain g2 where 2: "vb g1 = Inr g2" "gen_app (den_postfix y) (den_props y) g1 g2" using gensD[OF b g1] by blast
  then have "\<not> m_isPropertyList g2" by (simp add: gen_app_def)
  from gen_app_trans[OF 1(2) gen_app_trans[OF 2(2) gen_app_operation[OF this]]] show ?thesis using 1(1) 2(1) by simp
qed

lemma gens_test:
  assumes "gens va da" "gens vb db"
  shows "gens (\<lambda>g. bind_r (va g) (\<lambda>g. bind_r (vb g) (\<lambda>g. Inr (on_stmt (appendOperation op) g)))) (den_test op da db)"
  unfolding gens_def
proof (intro allI impI)
  fix x and g :: "'a WQLSelectStatementGen"
  assume "den_test op da db = Some x" and g: "\<not> m_isPropertyList g"
  then obtain u v where "da = Some (Operand u)" "db = Some (Operand v)" "x = Clause (Cmp op u v)"
    by (cases "(op, da, db)" rule: den_test.cases) auto
  with gens_binary[OF assms[unfolded this] g, of op] show "\<exists>g'. bind_r (va g) (\<lambda>g. bind_r (vb g) (\<lambda>g. Inr (on_stmt (appendOperation op) g))) = Inr g' \<and>
      gen_app (den_postfix x) (den_props x) g g'"
    using assms by (simp add: clause_props_def)
qed

lemma gens_join:
  assumes "gens va da" "gens vb db"
  shows "gens (\<lambda>g. bind_r (va g) (\<lambda>g. bind_r (vb g) (\<lambda>g. Inr (on_stmt (appendOperation (junct_op j)) g)))) (den_join j da db)"
  unfolding gens_def
proof (intro allI impI)
  fix x and g :: "'a WQLSelectStatementGen"
  assume "den_join j da db = Some x" and g: "\<not> m_isPropertyList g"
  then obtain u v where "da = Some (Clause u)" "db = Some (Clause v)" "x = Clause (Join j u v)"
    by (cases "(j, da, db)" rule: den_join.cases) auto
  with gens_binary[OF assms[unfolded this] g, of "junct_op j"]
  show "\<exists>g'. bind_r (va g) (\<lambda>g. bind_r (vb g) (\<lambda>g. Inr (on_stmt (appendOperation (junct_op j)) g))) = Inr g' \<and>
      gen_app (den_postfix x) (den_props x) g g'"
    by (simp add: clause_props_def)
qed

lemma gens_not:
  assumes "gens va da"
  shows "gens (\<lambda>g. bind_r (va g) (\<lambda>g. Inr (on_stmt (appendOperation WQL_NOT) g))) (den_not da)"
  unfolding gens_def
proof (intro allI impI)
  fix x and g :: "'a WQLSelectStatementGen"
  assume "den_not da = Some x" and g: "\<not> m_isPropertyList g"
  then obtain u where u: "da = Some (Clause u)" "x = Clause (Not u)" by (cases da rule: den_not.cases) auto
  then obtain g1 where 1: "va g = Inr g1" "gen_app (postfix u) (clause_props u) g g1"
    using gensD[OF assms[unfolded u(1)] g] by auto
  then have "\<not> m_isPropertyList g1" by (simp add: gen_app_def)
  from gen_app_trans[OF 1(2) gen_app_operation[OF this]]
  show "\<exists>g'. bind_r (va g) (\<lambda>g. Inr (on_stmt (appendOperation WQL_NOT) g)) = Inr g' \<and> gen_app (den_postfix x) (den_props x) g g'"
    using 1(1) u(2) by (simp add: clause_props_def)
qed

lemma gens_operand: "getType x \<noteq> T_PROPERTY_NAME \<Longrightarrow> gens (\<lambda>g. Inr (on_stmt (appendOperand x) g)) (Some (Operand x))"
  by (simp add: gens_def gen_app_operand)

lemma gens_with:
  assumes "gens va da" "getType x \<noteq> T_PROPERTY_NAME"
  shows "gens (\<lambda>g. bind_r (va g) (\<lambda>g. Inr (on_stmt (appendOperation op \<circ> appendOperand x) g))) (den_test op da (Some (Operand x)))"
  using gens_test[OF assms(1) gens_operand[OF assms(2)], of op] by (simp add: on_stmt_def)

lemma gen_app_attr:
  "\<not> m_isPropertyList g \<Longrightarrow> gen_app [OPERAND (PROPERTY_NAME n)] {n} g (append_name n (g\<lparr>m_attrName := n\<rparr>))"
  using gen_app_name[of "g\<lparr>m_attrName := n\<rparr>" n] by simp

lemma gens_attr: "gens (visit_attr a) (map_option (Operand \<circ> PROPERTY_NAME) (attr_name a))"
  by (cases a) (auto simp: gens_def visit_attrs_name visit_plain operand_props_def gen_app_attr)

lemma gens_colId:
  "gens (\<lambda>g. visit_ptr visit_optIndirection i (append_name n g)) (if plain i then Some (Operand (PROPERTY_NAME n)) else None)"
  by (auto simp: gens_def visit_plain operand_props_def gen_app_name)

lemma gens_const: "gens (visit_aExprConst L k) (map_option Operand (den_const L k))"
  by (auto simp: gens_def visit_aExprConst_den gen_app_operand den_const_type)

lemmas gens_intros = gens_test gens_join[of _ _ _ _ Conj, simplified] gens_join[of _ _ _ _ Disj, simplified]
  gens_not gens_with gens_attr gens_colId gens_const

lemma gens_none [simp]: "gens v None"
  by (simp add: gens_def)

lemma visit_gens: "gens (visit_aExpr L e) (den_aExpr L e)" "gens (visit_cExpr L c) (den_cExpr L c)"
  by (induction L e and L c rule: den_aExpr_den_cExpr.induct) (simp_all add: gens_intros)

section \<open>The select list\<close>

definition target_name :: "'r lit \<Rightarrow> targetEl \<Rightarrow> string option" where
  "target_name L t =
     (case t of
        targetEl_aExpr a \<Rightarrow> (case den_aExpr L a of Some (Operand (PROPERTY_NAME n)) \<Rightarrow> Some n | _ \<Rightarrow> None)
      | targetEl_strRelationName_PERIOD_ASTERISK r \<Rightarrow> Some (r @ ''.*'')
      | targetEl_ASTERISK \<Rightarrow> Some ''*''
      | _ \<Rightarrow> None)"

lemma den_not_operand [simp]:
  "den_test op x y \<noteq> Some (Operand v)" "den_join j x y \<noteq> Some (Operand v)" "den_not x \<noteq> Some (Operand v)"
  by (cases "(op, x, y)" rule: den_test.cases, simp_all) (cases "(j, x, y)" rule: den_join.cases, simp_all,
     cases x rule: den_not.cases, simp_all)

lemma den_const_not_name [simp]: "den_const L k \<noteq> Some (PROPERTY_NAME n)"
  by (cases k) auto

definition lists_name :: "('r WQLSelectStatementGen \<Rightarrow> 'r WQLSelectStatementGen result) \<Rightarrow> 'r den option \<Rightarrow> bool" where
  "lists_name visit d \<longleftrightarrow> (\<forall>n g. d = Some (Operand (PROPERTY_NAME n)) \<longrightarrow> m_isPropertyList g \<longrightarrow>
     (\<exists>a. visit g = Inr (on_stmt (appendSelectPropertyName n) (g\<lparr>m_attrName := a\<rparr>))))"

lemma visit_lists_name: "lists_name (visit_aExpr L e) (den_aExpr L e)" "lists_name (visit_cExpr L c) (den_cExpr L c)"
proof (induction L e and L c rule: den_aExpr_den_cExpr.induct)
  case (21 L a)
  then show ?case
    by (cases a) (auto simp: lists_name_def visit_attrs_name visit_plain append_name_def)
next
  case (22 L n i)
  have "\<exists>a. append_name n g = on_stmt (appendSelectPropertyName n) (g\<lparr>m_attrName := a\<rparr>)"
    if "m_isPropertyList g" for g :: "'a WQLSelectStatementGen"
    using that by (intro exI[of _ "m_attrName g"]) (simp add: append_name_def)
  then show ?case by (auto simp: lists_name_def visit_plain)
qed (simp_all add: lists_name_def)

lemma visit_targetEl_name:
  assumes "target_name L t = Some n" "\<not> m_isPropertyList g"
  shows "\<exists>a. visit_targetEl L t g = Inr (on_stmt (appendSelectPropertyName n) (g\<lparr>m_attrName := a\<rparr>))"
proof (cases t)
  case (targetEl_aExpr a)
  then have "den_aExpr L a = Some (Operand (PROPERTY_NAME n))"
    using assms(1) by (auto simp: target_name_def split: option.splits den.splits WQLOperand.splits)
  then obtain b where "visit_aExpr L a (g\<lparr>m_isPropertyList := True\<rparr>) =
      Inr (on_stmt (appendSelectPropertyName n) (g\<lparr>m_isPropertyList := True, m_attrName := b\<rparr>))"
    using visit_lists_name(1)[of L a, unfolded lists_name_def, rule_format, of n "g\<lparr>m_isPropertyList := True\<rparr>"] by auto
  then show ?thesis
    using targetEl_aExpr assms(2) by (intro exI[of _ b]) (simp add: on_stmt_def)
next
  case (targetEl_strRelationName_PERIOD_ASTERISK r)
  then show ?thesis using assms by (intro exI[of _ "m_attrName g"]) (simp add: target_name_def)
next
  case targetEl_ASTERISK
  then show ?thesis using assms by (intro exI[of _ "m_attrName g"]) (simp add: target_name_def)
qed (use assms in \<open>simp add: target_name_def\<close>)

lemma visit_targets:
  "map (target_name L) ts = map Some ns \<Longrightarrow> \<not> m_isPropertyList g \<Longrightarrow>
   \<exists>g'. fold_r (visit_targetEl L) ts g = Inr g' \<and>
     m_stmt g' = (m_stmt g)\<lparr>selectPropertyNames := selectPropertyNames (m_stmt g) @ ns\<rparr>"
proof (induction ts arbitrary: ns g)
  case (Cons t ts)
  then obtain n ms where ns: "ns = n # ms" "target_name L t = Some n" "map (target_name L) ts = map Some ms"
    by (cases ns) auto
  obtain a where 1: "visit_targetEl L t g = Inr (on_stmt (appendSelectPropertyName n) (g\<lparr>m_attrName := a\<rparr>))"
    using visit_targetEl_name[OF ns(2) Cons.prems(2)] by blast
  show ?case
    using Cons.IH[OF ns(3), of "on_stmt (appendSelectPropertyName n) (g\<lparr>m_attrName := a\<rparr>)"] Cons.prems(2) 1 ns(1)
    by (auto simp: on_stmt_def appendSelectPropertyName_def)
qed simp

section \<open>Statements\<close>

text \<open>The query \<^verbatim>\<open>SELECT ts FROM cls [WHERE e]\<close>, as the parser builds it.\<close>

definition select_query :: "targetEl list \<Rightarrow> string \<Rightarrow> aExpr option \<Rightarrow> optSemicolon option \<Rightarrow> stmt" where
  "select_query ts cls e semi =
     stmt_selectStmt_optSemicolon
       (selectStmt None ts (Some (optFromClause_FROM_fromList [tableRef_relationExpr (relationExpr_strRelationName cls)]))
         (map_option optWhereClause_WHERE_aExpr e) None None None) semi"

text \<open>The operand stack that the where clause stands for.\<close>

definition den_where :: "'r lit \<Rightarrow> aExpr option \<Rightarrow> 'r den option option" where
  "den_where L e = (case e of None \<Rightarrow> Some None | Some a \<Rightarrow> map_option Some (den_aExpr L a))"

lemma visit_ptr_null: "visit_ptr v None g = Inr g"
  by (simp add: visit_ptr_def)

lemma visit_ptr_one: "visit_ptr v (Some x) g = v x g"
  by (simp add: visit_ptr_def)

lemma visit_semicolon [simp]: "visit_ptr visit_optSemicolon semi g = Inr g"
proof (cases semi)
  case (Some x)
  then show ?thesis by (cases x) (simp_all add: visit_ptr_def)
qed (simp add: visit_ptr_def)

lemma visit_where:
  assumes "den_where L e = Some d" "\<not> m_isPropertyList g"
  shows "\<exists>g'. visit_ptr (visit_optWhereClause L) (map_option optWhereClause_WHERE_aExpr e) g = Inr g' \<and>
     gen_app (case d of None \<Rightarrow> [] | Some x \<Rightarrow> den_postfix x) (case d of None \<Rightarrow> {} | Some x \<Rightarrow> den_props x) g g'"
proof (cases e)
  case None
  then show ?thesis using assms by (simp add: den_where_def visit_ptr_def gen_app_def)
next
  case (Some a)
  then obtain x where "den_aExpr L a = Some x" "d = Some x" using assms(1) by (auto simp: den_where_def)
  then show ?thesis using Some visit_gens(1)[of L a] assms(2) by (simp add: gens_def visit_ptr_def)
qed

lemma visit_select_query:
  assumes "map (target_name L) ts = map Some ns" "den_where L e = Some d"
  shows "\<exists>g. visit_stmt L (select_query ts cls e semi) WQLSelectStatementGen_new = Inr g \<and>
     stmt_className (m_stmt g) = cls \<and> selectPropertyNames (m_stmt g) = ns \<and>
     operStack (m_stmt g) = (case d of None \<Rightarrow> [] | Some x \<Rightarrow> den_postfix x) \<and>
     set (wherePropertyNames (m_stmt g)) = (case d of None \<Rightarrow> {} | Some x \<Rightarrow> den_props x) \<and>
     distinct (wherePropertyNames (m_stmt g))"
proof -
  let ?g0 = "WQLSelectStatementGen_new\<lparr>m_stmt := setClassName cls (stmt_clear WQLSelectStatement_new)\<rparr> :: 'a WQLSelectStatementGen"
  have "\<not> m_isPropertyList ?g0" by (simp add: WQLSelectStatementGen_new_def)
  from visit_where[OF assms(2) this] obtain g1 where
    1: "visit_ptr (visit_optWhereClause L) (map_option optWhereClause_WHERE_aExpr e) ?g0 = Inr g1"
      "gen_app (case d of None \<Rightarrow> [] | Some x \<Rightarrow> den_postfix x) (case d of None \<Rightarrow> {} | Some x \<Rightarrow> den_props x) ?g0 g1" by blast
  then have "\<not> m_isPropertyList g1" by (simp add: gen_app_def)
  from visit_targets[OF assms(1) this] obtain g2 where
    2: "fold_r (visit_targetEl L) ts g1 = Inr g2" "m_stmt g2 = (m_stmt g1)\<lparr>selectPropertyNames := selectPropertyNames (m_stmt g1) @ ns\<rparr>" by blast
  have "visit_stmt L (select_query ts cls e semi) WQLSelectStatementGen_new = Inr g2"
    using 1(1) 2(1) by (simp add: select_query_def visit_ptr_null visit_ptr_one on_stmt_def WQLSelectStatementGen_new_def)
  then show ?thesis
    using 1(2) 2(2) by (simp add: gen_app_def stmt_defs)
qed

lemma den_test_ops:
  "test_op op \<Longrightarrow> den_test op x y = Some (Clause w) \<Longrightarrow> \<forall>(op, l, r)\<in>cmps w. test_op op"
  by (cases "(op, x, y)" rule: den_test.cases) auto

definition tests_only :: "'r den option \<Rightarrow> bool" where
  "tests_only d \<longleftrightarrow> (\<forall>w. d = Some (Clause w) \<longrightarrow> (\<forall>(op, l, r)\<in>cmps w. test_op op))"

lemma tests_only_test: "test_op op \<Longrightarrow> tests_only (den_test op x y)"
  using den_test_ops[of op x y] by (auto simp: tests_only_def)

lemma tests_only_join: "tests_only x \<Longrightarrow> tests_only y \<Longrightarrow> tests_only (den_join j x y)"
  by (cases "(j, x, y)" rule: den_join.cases) (auto simp: tests_only_def)

lemma tests_only_not: "tests_only x \<Longrightarrow> tests_only (den_not x)"
  by (cases x rule: den_not.cases) (auto simp: tests_only_def)

lemma tests_only_leaves:
  "tests_only (map_option (Operand \<circ> f) z)" "tests_only (map_option Operand v)" "tests_only None" "tests_only (Some (Operand u))"
  by (auto simp: tests_only_def)

lemmas tests_only_intros = tests_only_test tests_only_join tests_only_not tests_only_leaves

lemma den_tests: "tests_only (den_aExpr L e)" "tests_only (den_cExpr L c)"
  by (induction L e and L c rule: den_aExpr_den_cExpr.induct)
     (simp_all add: tests_only_intros test_op_def comparison_def)

section \<open>Rejection\<close>

text \<open>The only exception of the generator is \<^verbatim>\<open>CIMException::INVALID_QUERY\<close>.\<close>

definition rejected :: "'a result \<Rightarrow> bool" where
  "rejected r \<longleftrightarrow> (case r of Inl x \<Rightarrow> x = InvalidQuery | Inr _ \<Rightarrow> True)"

lemma rejected_simps [simp]: "rejected (Inr x)" "rejected (Inl e) \<longleftrightarrow> e = InvalidQuery"
  by (simp_all add: rejected_def)

lemma rejected_bind: "rejected m \<Longrightarrow> (\<And>x. m = Inr x \<Longrightarrow> rejected (f x)) \<Longrightarrow> rejected (bind_r m f)"
  by (cases m) auto

lemma rejected_ptr: "(\<And>x. rejected (v x g)) \<Longrightarrow> rejected (visit_ptr v p g)"
  by (cases p) (auto simp: visit_ptr_def)

lemma rejected_fold: "(\<And>x g. rejected (v x g)) \<Longrightarrow> rejected (fold_r v xs g)"
  by (induction xs arbitrary: g) (auto intro: rejected_bind)

lemma rejected_optIndirection: "rejected (visit_optIndirection i g)"
  by (cases i) auto

lemma rejected_attr: "rejected (visit_attr a g)"
  by (cases a) (auto simp: Let_def intro: rejected_ptr rejected_optIndirection)

lemma rejected_aExprConst: "rejected (visit_aExprConst L k g)"
  by (cases k) (auto simp: push_operand_or_throw_def split: option.splits)

lemmas rejected_leaves = rejected_attr rejected_aExprConst rejected_ptr[of visit_optIndirection, OF rejected_optIndirection]

lemma rejected_expr: "rejected (visit_aExpr L e g)" "rejected (visit_cExpr L c g)"
  by (induction L e g and L c g rule: visit_aExpr_visit_cExpr.induct)
     (simp_all add: rejected_bind rejected_leaves del: visit_attr.simps)

lemma rejected_tableRef: "rejected (visit_tableRef t g)"
proof (cases t)
  case (tableRef_relationExpr r)
  then show ?thesis by (cases r) auto
qed auto

lemma rejected_fromList: "rejected (visit_fromList n ts g)"
  by (induction n ts g rule: visit_fromList.induct) (auto intro!: rejected_bind rejected_tableRef)

lemma rejected_clauses:
  "rejected (visit_optDistinct d g)" "rejected (visit_optGroupClause gr g)" "rejected (visit_optHavingClause h g)"
  "rejected (visit_optSortClause so g)" "rejected (visit_optFromClause f g)" "rejected (visit_optWhereClause L w g)"
  "rejected (visit_targetEl L t g)"
  by (cases d, simp_all) (cases gr, simp_all, cases h, simp_all, cases so, simp_all, cases f, simp_all add: rejected_fromList,
      cases w, simp_all add: rejected_expr, cases t, simp_all add: rejected_bind rejected_expr)

lemma rejected_stmt: "rejected (visit_stmt L st g)"
proof (cases st)
  case (stmt_selectStmt_optSemicolon s semi)
  then show ?thesis
    by (cases s) (auto intro!: rejected_bind rejected_fold rejected_clauses rejected_ptr[OF rejected_clauses(1)]
        rejected_ptr[OF rejected_clauses(2)] rejected_ptr[OF rejected_clauses(3)] rejected_ptr[OF rejected_clauses(4)]
        rejected_ptr[OF rejected_clauses(5)] rejected_ptr[OF rejected_clauses(6)])
qed auto

text \<open>What is accepted has none of the clauses that the statement cannot hold.\<close>

lemma visit_unused_accepts:
  "visit_ptr visit_optDistinct d g = Inr g' \<Longrightarrow> d \<in> {None, Some optDistinct_empty}"
  "visit_ptr visit_optGroupClause gr g = Inr g' \<Longrightarrow> gr \<in> {None, Some optGroupClause_empty}"
  "visit_ptr visit_optHavingClause h g = Inr g' \<Longrightarrow> h = None"
  "visit_ptr visit_optSortClause so g = Inr g' \<Longrightarrow> so \<in> {None, Some optSortClause_empty}"
  by (auto simp: visit_ptr_def elim: visit_optDistinct.elims visit_optGroupClause.elims
      visit_optHavingClause.elims visit_optSortClause.elims split: option.splits)

definition one_class :: "tableRef list \<Rightarrow> bool" where
  "one_class ts \<longleftrightarrow> (\<exists>cls. ts = [tableRef_relationExpr (relationExpr_strRelationName cls)])"

lemma visit_tableRef_accepts: "visit_tableRef t g = Inr g' \<Longrightarrow> \<exists>cls. t = tableRef_relationExpr (relationExpr_strRelationName cls)"
proof (cases t)
  case (tableRef_relationExpr r)
  then show "visit_tableRef t g = Inr g' \<Longrightarrow> ?thesis" by (cases r) auto
qed auto

lemma visit_from_accepts: "visit_ptr visit_optFromClause f g = Inr g' \<Longrightarrow>
   f = None \<or> (\<exists>ts. f = Some (optFromClause_FROM_fromList ts) \<and> (ts = [] \<or> one_class ts))"
proof (cases f)
  case (Some c)
  assume a: "visit_ptr visit_optFromClause f g = Inr g'"
  then obtain ts where ts: "c = optFromClause_FROM_fromList ts" "visit_fromList 0 ts g = Inr g'"
    using Some by (cases c) (auto simp: visit_ptr_def)
  have "ts = [] \<or> one_class ts"
  proof (cases ts)
    case (Cons t us)
    then show ?thesis using ts(2) by (cases us) (auto simp: bind_r_eq_Inr one_class_def dest: visit_tableRef_accepts)
  qed simp
  with ts(1) Some show ?thesis by blast
qed simp

text \<open>A concrete reading of literals, for the instances below: the length of the text for a number.\<close>

definition ex_lit :: "int lit" where
  "ex_lit = \<lparr>toInt64 = (\<lambda>base s. if s = [] then None else Some (of_nat (length s))),
     toReal64 = (\<lambda>s. if s = [] then None else Some (int (length s))), past_end = CHR 0x00\<rparr>"

definition ex_col :: "string \<Rightarrow> aExpr" where
  "ex_col n = aExpr_cExpr (cExpr_strColId_optIndirection n None)"

definition ex_str :: "string \<Rightarrow> aExpr" where
  "ex_str s = aExpr_cExpr (cExpr_aExprConst (aExprConst_SCONST s))"

text \<open>\<^verbatim>\<open>NOT (Name = 'sda' AND Size IS NULL) OR Kind ISA 'Disk'\<close>\<close>

definition ex_expr :: aExpr where
  "ex_expr = aExpr_aExpr_OR_aExpr
     (aExpr_NOT_aExpr (aExpr_cExpr (cExpr_LEFTPAREN_aExpr_RIGHTPAREN
       (aExpr_aExpr_AND_aExpr (aExpr_aExpr_EQUALS_aExpr (ex_col ''Name'') (ex_str ''sda'')) (aExpr_aExpr_IS_NULLP (ex_col ''Size''))))))
     (aExpr_aExpr_ISA_aExpr (ex_col ''Kind'') (ex_str ''Disk''))"

lemma quote_plain: "CHR 0x27 \<notin> set s \<Longrightarrow> CHR 0x5C \<notin> set s \<Longrightarrow> wql_quote s = s"
  by (induction s) auto

lemma unescape_plain: "CHR 0x27 \<notin> set s \<Longrightarrow> CHR 0x5C \<notin> set s \<Longrightarrow> WQLRemoveStringEscapes z s = s"
  using WQLRemoveStringEscapes_quote[of z s] quote_plain[of s] by simp

definition ex_meaning :: "int wexpr" where
  "ex_meaning = Or (Not (And (Cmp WQL_EQ (PROPERTY_NAME ''Name'') (STRING_VALUE ''sda''))
     (Cmp WQL_EQ (PROPERTY_NAME ''Size'') NULL_VALUE))) (Cmp WQL_ISA (PROPERTY_NAME ''Kind'') (STRING_VALUE ''Disk''))"

lemma ex_expr_den: "den_aExpr ex_lit ex_expr = Some (Clause ex_meaning)"
  by (simp add: ex_expr_def ex_col_def ex_str_def ex_meaning_def plain_def unescape_plain)

lemma visit_stmt_accepts:
  assumes "visit_stmt L st g = Inr g'"
  shows "\<exists>d ts f w gr so semi. st = stmt_selectStmt_optSemicolon (selectStmt d ts f w gr None so) semi \<and>
       d \<in> {None, Some optDistinct_empty} \<and> gr \<in> {None, Some optGroupClause_empty} \<and> so \<in> {None, Some optSortClause_empty} \<and>
       (f = None \<or> (\<exists>us. f = Some (optFromClause_FROM_fromList us) \<and> (us = [] \<or> one_class us)))"
proof -
  obtain s semi where st: "st = stmt_selectStmt_optSemicolon s semi" using assms by (cases st) auto
  obtain d ts f w gr h so where s: "s = selectStmt d ts f w gr h so" by (cases s)
  from assms obtain g1 g2 g3 g4 g5 where
    "visit_ptr visit_optDistinct d g = Inr g1" "visit_ptr visit_optGroupClause gr g1 = Inr g2"
    "visit_ptr visit_optHavingClause h g2 = Inr g3" "visit_ptr visit_optSortClause so g3 = Inr g4"
    "visit_ptr visit_optFromClause f (on_stmt stmt_clear g4) = Inr g5"
    unfolding st s by (auto simp: bind_r_eq_Inr)
  from this(1)[THEN visit_unused_accepts(1)] this(2)[THEN visit_unused_accepts(2)] this(3)[THEN visit_unused_accepts(3)]
    this(4)[THEN visit_unused_accepts(4)] this(5)[THEN visit_from_accepts]
  show ?thesis unfolding st s by blast
qed

section \<open>Properties\<close>

text \<open>
  C11: For \<^verbatim>\<open>SELECT names FROM class [WHERE clause]\<close>, with a select list of names and a where clause of the supported
  fragment, the generator returns normally. Its statement has that class name, the names in their order, the
  postfix form of the clause, and each property of the clause exactly once.
\<close>

theorem visit_select_correct:
  assumes "map (target_name L) ts = map Some ns" "den_where L e = Some d"
  shows "\<exists>g. visit_stmt L (select_query ts cls e semi) WQLSelectStatementGen_new = Inr g \<and>
     stmt_className (m_stmt g) = cls \<and> selectPropertyNames (m_stmt g) = ns \<and>
     operStack (m_stmt g) = (case d of None \<Rightarrow> [] | Some x \<Rightarrow> den_postfix x) \<and>
     set (wherePropertyNames (m_stmt g)) = (case d of None \<Rightarrow> {} | Some x \<Rightarrow> den_props x) \<and>
     distinct (wherePropertyNames (m_stmt g))"
  by (rule visit_select_query[OF assms])

theorem visit_select_correct_witness:
  "\<exists>g. visit_stmt ex_lit (select_query [targetEl_ASTERISK, targetEl_aExpr (ex_col ''Name'')] ''CIM_Disk'' (Some ex_expr) None)
     WQLSelectStatementGen_new = Inr g \<and> selectPropertyNames (m_stmt g) = [''*'', ''Name''] \<and>
     set (wherePropertyNames (m_stmt g)) = {''Name'', ''Size'', ''Kind''}"
proof -
  have "map (target_name ex_lit) [targetEl_ASTERISK, targetEl_aExpr (ex_col ''Name'')] = map Some [''*'', ''Name'']"
    "den_where ex_lit (Some ex_expr) = Some (Some (Clause ex_meaning))"
    by (simp_all add: target_name_def ex_col_def plain_def den_where_def ex_expr_den)
  from visit_select_correct[OF this, of "''CIM_Disk''" None] show ?thesis
    by (auto simp: ex_meaning_def clause_props_def operand_props_def)
qed

text \<open>
  C13: The only exception of the generator is \<^verbatim>\<open>CIMException::INVALID_QUERY\<close>. A statement that it accepts is a SELECT of
  at most one class, named plainly, with no DISTINCT, no GROUP BY, no HAVING and no ORDER BY clause.
\<close>

theorem visit_stmt_accepts_or_rejects:
  "case visit_stmt L st g of
     Inl x \<Rightarrow> x = InvalidQuery
   | Inr g' \<Rightarrow> \<exists>d ts f w gr so semi. st = stmt_selectStmt_optSemicolon (selectStmt d ts f w gr None so) semi \<and>
       d \<in> {None, Some optDistinct_empty} \<and> gr \<in> {None, Some optGroupClause_empty} \<and> so \<in> {None, Some optSortClause_empty} \<and>
       (f = None \<or> (\<exists>us. f = Some (optFromClause_FROM_fromList us) \<and> (us = [] \<or> one_class us)))"
  using rejected_stmt[of L st g] visit_stmt_accepts[of L st g] by (cases "visit_stmt L st g") simp_all

text \<open>
  C27: A number in the select list is appended to the operand stack of the where clause, since the methods for
  constants do not test \<^verbatim>\<open>m_isPropertyList\<close>. The statement for \<^verbatim>\<open>SELECT 5 FROM class\<close> selects no property, and its
  where clause, which the query does not have, cannot be evaluated.
\<close>

theorem select_constant_in_where:
  assumes "toInt64 L 10 k = Some v"
  shows "\<exists>g. visit_stmt L (select_query [targetEl_aExpr (aExpr_cExpr (cExpr_aExprConst (aExprConst_ICONST k)))] cls None semi)
       WQLSelectStatementGen_new = Inr g \<and> selectPropertyNames (m_stmt g) = [] \<and> hasWhereClause (m_stmt g) \<and>
     (\<forall>X src. evaluateWhereClause X src (m_stmt g) = Inl TypeMismatchException)"
  using assms
  by (simp add: select_query_def visit_ptr_null visit_ptr_one on_stmt_def WQLSelectStatementGen_new_def push_operand_or_throw_def
      stmt_defs evaluateWhereClause_def)

theorem select_constant_in_where_witness:
  "\<exists>g. visit_stmt ex_lit (select_query [targetEl_aExpr (aExpr_cExpr (cExpr_aExprConst (aExprConst_ICONST ''5'')))] ''CIM_Disk'' None None)
     WQLSelectStatementGen_new = Inr g \<and> selectPropertyNames (m_stmt g) = []"
  using select_constant_in_where[of ex_lit "''5''" 1 "''CIM_Disk''" None] by (auto simp: ex_lit_def)

text \<open>
  C15: \<^verbatim>\<open>WQLRemoveStringEscapes\<close> gives back every string that was written as a literal with its quotes and backslashes
  doubled.
\<close>

theorem WQLRemoveStringEscapes_roundtrip: "WQLRemoveStringEscapes z (wql_quote s) = s"
  by (rule WQLRemoveStringEscapes_quote)

end
