(* ===== verification/CIM_Stream.thy ===== *)
theory CIM_Stream
  imports WBEM_Prelude
begin

text \<open>
  The binary serialization of \<^verbatim>\<open>common/OW_BinarySerialization.hpp\<close>, \<^verbatim>\<open>OW_BinarySerialization.cpp\<close>
  and \<^verbatim>\<open>cim/OW_CIMBase.cpp\<close>: lengths in the ASN.1 form, integers in network byte order,
  signatures with and without a version, arrays, and enumerations that end at a signature.

  A stream is the list of the bytes still to come. A reader returns the value or the exception
  together with the rest of the stream, since \<^verbatim>\<open>readEnum\<close> catches an exception and goes on with
  the bytes that are left. A writer is the list of bytes it puts out; a stream that refuses output
  is not modelled. The locale \<open>codec\<close> states that a reader gives back what a writer wrote.
\<close>

unbundle bit_operations_syntax

section \<open>Readers\<close>

type_synonym byte = "8 word"
type_synonym 'a reader = "byte list \<Rightarrow> 'a result \<times> byte list"

definition rd_return :: "'a \<Rightarrow> 'a reader" where
  "rd_return x s = (Inr x, s)"

definition rd_throw :: "exn \<Rightarrow> 'a reader" where
  "rd_throw e s = (Inl e, s)"

definition rd_bind :: "'a reader \<Rightarrow> ('a \<Rightarrow> 'b reader) \<Rightarrow> 'b reader" where
  "rd_bind m f s = (case m s of (Inl e, s') \<Rightarrow> (Inl e, s') | (Inr x, s') \<Rightarrow> f x s')"

named_theorems reader_simps

lemma rd_return_apply [simp, reader_simps]: "rd_return x s = (Inr x, s)"
  by (simp add: rd_return_def)

lemma rd_throw_apply [simp, reader_simps]: "rd_throw e s = (Inl e, s)"
  by (simp add: rd_throw_def)

lemma rd_bind_Inr [reader_simps]: "m s = (Inr x, s') \<Longrightarrow> rd_bind m f s = f x s'"
  by (simp add: rd_bind_def)

lemma rd_bind_Inl [reader_simps]: "m s = (Inl e, s') \<Longrightarrow> rd_bind m f s = (Inl e, s')"
  by (simp add: rd_bind_def)

lemma rd_bind_cong [fundef_cong]:
  "m s = m' s' \<Longrightarrow> (\<And>x t. m' s' = (Inr x, t) \<Longrightarrow> f x t = f' x t) \<Longrightarrow> rd_bind m f s = rd_bind m' f' s'"
  by (auto simp: rd_bind_def split: prod.splits sum.splits)

section \<open>Bytes and integers\<close>

text \<open>\<^verbatim>\<open>read (istrm, dataIn, dataInLen)\<close>: a stream that is too short is used up.\<close>

definition read_bytes :: "nat \<Rightarrow> byte list reader" where
  "read_bytes n s = (if n \<le> length s then (Inr (take n s), drop n s) else (Inl IOException, []))"

lemma read_bytes_append [reader_simps]: "length bs = n \<Longrightarrow> read_bytes n (bs @ s) = (Inr bs, s)"
  by (simp add: read_bytes_def)

text \<open>
  The memory image of an integer after \<^verbatim>\<open>hton16\<close>, \<^verbatim>\<open>hton32\<close> or \<^verbatim>\<open>hton64\<close> has the most
  significant byte first.
\<close>

primrec be_bytes :: "nat \<Rightarrow> 'w::len word \<Rightarrow> byte list" where
  "be_bytes 0 w = []"
| "be_bytes (Suc n) w = ucast (drop_bit (8 * n) w) # be_bytes n w"

definition be_word :: "byte list \<Rightarrow> 'w::len word" where
  "be_word bs = foldl (\<lambda>a b. push_bit 8 a OR ucast b) 0 bs"

lemma length_be_bytes [simp]: "length (be_bytes n w) = n"
  by (induction n) auto

lemma be_fold_acc:
  "foldl (\<lambda>a b. push_bit 8 a OR ucast b) a bs = push_bit (8 * length bs) a OR be_word bs"
  for a :: "'w::len word" and bs :: "byte list"
proof (induction bs arbitrary: a)
  case (Cons b bs)
  have "foldl (\<lambda>a b. push_bit 8 a OR ucast b) a (b # bs)
      = push_bit (8 * length bs) (push_bit 8 a OR ucast b) OR be_word bs"
    using Cons.IH by simp
  moreover have "(be_word (b # bs) :: 'w word) = push_bit (8 * length bs) (ucast b) OR be_word bs"
    using Cons.IH [of "push_bit 8 0 OR ucast b"] by (simp add: be_word_def)
  ultimately show ?case
    by (simp add: push_bit_or push_bit_push_bit or.assoc add.commute)
qed (simp add: be_word_def)

lemma be_word_Cons: "be_word (b # bs) = push_bit (8 * length bs) (ucast b) OR (be_word bs :: 'w::len word)"
  using be_fold_acc [of "push_bit 8 0 OR ucast b" bs] by (simp add: be_word_def)

lemma be_word_be_bytes: "be_word (be_bytes n w) = take_bit (8 * n) (w :: 'w::len word)"
proof (induction n)
  case (Suc n)
  have "bit (push_bit (8 * n) (ucast (ucast (drop_bit (8 * n) w) :: byte)) OR take_bit (8 * n) w) k
      \<longleftrightarrow> bit (take_bit (8 * Suc n) w) k" if "k < LENGTH('w)" for k
  proof (cases "k < 8 * n")
    case True
    then show ?thesis using that by (auto simp: bit_simps)
  next
    case False
    then have "bit (take_bit (8 * n) w) k = False" by (simp add: bit_simps)
    with False that show ?thesis by (auto simp: bit_simps)
  qed
  then show ?case
    unfolding be_bytes.simps be_word_Cons Suc length_be_bytes by (intro bit_word_eqI) blast
qed (simp add: be_word_def)

lemma be_word_full: "LENGTH('w) \<le> 8 * n \<Longrightarrow> be_word (be_bytes n w) = (w :: 'w::len word)"
  by (simp add: be_word_be_bytes take_bit_word_eq_self)

text \<open>The functions \<^verbatim>\<open>write\<close> and \<^verbatim>\<open>read\<close> for the integer types; the signed ones differ in their type only.\<close>

definition write_UInt8 :: "8 word \<Rightarrow> byte list" where "write_UInt8 val = [val]"
definition write_UInt16 :: "16 word \<Rightarrow> byte list" where "write_UInt16 val = be_bytes 2 val"
definition write_UInt32 :: "32 word \<Rightarrow> byte list" where "write_UInt32 val = be_bytes 4 val"
definition write_UInt64 :: "64 word \<Rightarrow> byte list" where "write_UInt64 val = be_bytes 8 val"

definition read_UInt8 :: "8 word reader" where
  "read_UInt8 = rd_bind (read_bytes 1) (\<lambda>bs. rd_return (be_word bs))"
definition read_UInt16 :: "16 word reader" where
  "read_UInt16 = rd_bind (read_bytes 2) (\<lambda>bs. rd_return (be_word bs))"
definition read_UInt32 :: "32 word reader" where
  "read_UInt32 = rd_bind (read_bytes 4) (\<lambda>bs. rd_return (be_word bs))"
definition read_UInt64 :: "64 word reader" where
  "read_UInt64 = rd_bind (read_bytes 8) (\<lambda>bs. rd_return (be_word bs))"

lemma read_UInt8_Nil: "read_UInt8 [] = (Inl IOException, [])"
  by (simp add: read_UInt8_def rd_bind_def read_bytes_def)

lemma read_UInt8_Cons [simp, reader_simps]: "read_UInt8 (b # s) = (Inr b, s)"
  by (simp add: read_UInt8_def rd_bind_def read_bytes_def be_word_def)

text \<open>A \<^verbatim>\<open>char\<close> and its byte.\<close>

lemma unat_byte: "unat (of_char c :: byte) = of_char c"
proof -
  have "unat (of_nat (of_char c) :: byte) = of_char c"
    by (simp add: unsigned_of_nat take_bit_nat_eq_self)
  then show ?thesis by (simp only: of_nat_of_char)
qed

lemma byte_char: "char_of (unat (of_char c :: byte)) = c"
  by (simp add: unat_byte)

lemma byte_eq_iff [simp]: "(of_char c :: byte) = of_char d \<longleftrightarrow> c = d"
  by (metis byte_char)

section \<open>Codecs\<close>

text \<open>
  A writer and a reader of the same format, for the values that satisfy \<open>ok\<close>. The law is stated for
  every continuation \<open>s\<close> of the stream, so codecs can be put one after the other.
\<close>

named_theorems codec_simps

locale codec =
  fixes wr :: "'a \<Rightarrow> byte list" and rd :: "'a reader" and ok :: "'a \<Rightarrow> bool"
  assumes rd_wr: "ok x \<Longrightarrow> rd (wr x @ s) = (Inr x, s)"
begin

lemma bind_wr [codec_simps]: "ok x \<Longrightarrow> rd_bind rd f (wr x @ s) = f x s"
  by (simp add: rd_wr rd_bind_Inr)

lemma wr_inj: "ok x \<Longrightarrow> ok y \<Longrightarrow> wr x @ s = wr y @ t \<Longrightarrow> x = y \<and> s = t"
  using rd_wr [of x s] rd_wr [of y t] by (metis Pair_inject sum.inject(2))

lemma wr_no_prefix: "ok x \<Longrightarrow> ok y \<Longrightarrow> x \<noteq> y \<Longrightarrow> wr y \<noteq> wr x @ s"
  using wr_inj [of x y s "[]"] by (metis append_Nil2)

end

lemma codecD: "codec wr rd ok \<Longrightarrow> ok x \<Longrightarrow> rd (wr x @ s) = (Inr x, s)"
  by (rule codec.rd_wr)

lemma codec_subset: "codec wr rd ok \<Longrightarrow> (\<And>x. ok' x \<Longrightarrow> ok x) \<Longrightarrow> codec wr rd ok'"
  unfolding codec_def by blast

interpretation UInt8: codec write_UInt8 read_UInt8 "\<lambda>_. True"
  by unfold_locales (simp add: write_UInt8_def)

interpretation UInt16: codec write_UInt16 read_UInt16 "\<lambda>_. True"
  by unfold_locales (simp add: write_UInt16_def read_UInt16_def rd_bind_def read_bytes_append be_word_full)

interpretation UInt32: codec write_UInt32 read_UInt32 "\<lambda>_. True"
  by unfold_locales (simp add: write_UInt32_def read_UInt32_def rd_bind_def read_bytes_append be_word_full)

interpretation UInt64: codec write_UInt64 read_UInt64 "\<lambda>_. True"
  by unfold_locales (simp add: write_UInt64_def read_UInt64_def rd_bind_def read_bytes_append be_word_full)

section \<open>Lengths\<close>

text \<open>
  The loop of \<^verbatim>\<open>writeLen\<close> fills \<^verbatim>\<open>netlen\<close> from its end; \<open>acc\<close> is the part that is filled.
\<close>

fun netlen :: "nat \<Rightarrow> 32 word \<Rightarrow> byte list \<Rightarrow> byte list" where
  "netlen 0 len acc = acc"
| "netlen (Suc j) len acc = netlen j (drop_bit 8 len) (ucast (len AND 0xff) # acc)"

definition lenlen :: "32 word \<Rightarrow> nat" where
  "lenlen len = (if len < 2 ^ 8 then 1 else if len < 2 ^ 16 then 2 else if len < 2 ^ 24 then 3 else 4)"

definition writeLen :: "32 word \<Rightarrow> byte list" where
  "writeLen len = (if len < 128 then [ucast len]
                   else (of_nat (lenlen len) OR 0x80) # netlen (lenlen len) len [])"

definition readLen :: "32 word reader" where
  "readLen = rd_bind read_UInt8 (\<lambda>lc.
     if lc AND 0x80 \<noteq> 0 then
       if unat (lc AND 0x7f) > 4 then rd_throw IOException
       else rd_bind (read_bytes (unat (lc AND 0x7f))) (\<lambda>bs. rd_return (foldl (\<lambda>len b. push_bit 8 len OR ucast b) 0 bs))
     else rd_return (ucast lc))"

lemma netlen_be_bytes: "netlen j len acc = be_bytes j len @ acc"
proof (induction j arbitrary: len acc)
  case (Suc j)
  have "be_bytes j (drop_bit 8 len) @ ucast (len AND 0xff) # acc = be_bytes (Suc j) len @ acc"
  proof (induction j)
    case 0
    have "(ucast (len AND mask 8) :: byte) = ucast len"
      by (intro bit_word_eqI) (auto simp: bit_simps)
    moreover have "(mask 8 :: 32 word) = 0xff" by (simp add: mask_eq_exp_minus_1)
    ultimately have "(ucast (len AND 0xff) :: byte) = ucast len" by metis
    then show ?case by simp
  next
    case (Suc k)
    have "(ucast (drop_bit (8 * k) (drop_bit 8 len)) :: byte) = ucast (drop_bit (8 * Suc k) len)"
      by (simp add: algebra_simps)
    with Suc show ?case by simp
  qed
  with Suc.IH show ?case by simp
qed simp

lemma lenlen_bounds: "1 \<le> lenlen len \<and> lenlen len \<le> 4"
  by (simp add: lenlen_def)

lemma lenlen_enough: "take_bit (8 * lenlen len) len = len"
proof -
  have "unat len < 2 ^ (8 * lenlen len)"
    using unsigned_less [of len] by (auto simp: lenlen_def word_less_nat_alt)
  then show ?thesis by (simp add: word_unat_eq_iff unsigned_take_bit_eq take_bit_nat_eq_self)
qed

lemma lenlen_octet:
  assumes "1 \<le> n" "n \<le> 4"
  shows "(of_nat n OR 0x80 :: byte) AND 0x80 \<noteq> 0" "unat ((of_nat n OR 0x80 :: byte) AND 0x7f) = n"
proof -
  have "n = 1 \<or> n = 2 \<or> n = 3 \<or> n = 4" using assms by auto
  then show "(of_nat n OR 0x80 :: byte) AND 0x80 \<noteq> 0" "unat ((of_nat n OR 0x80 :: byte) AND 0x7f) = n"
    by auto
qed

lemma short_bit: "len < 128 \<Longrightarrow> 7 \<le> k \<Longrightarrow> \<not> bit (len :: 32 word) k"
proof -
  assume "len < 128" "7 \<le> k"
  then have "take_bit 7 len = len"
    by (simp add: word_unat_eq_iff unsigned_take_bit_eq take_bit_nat_eq_self word_less_nat_alt)
  with \<open>7 \<le> k\<close> show ?thesis by (metis bit_take_bit_iff not_le)
qed

lemma short_octet: "len < 128 \<Longrightarrow> (ucast len :: byte) AND 0x80 = 0" for len :: "32 word"
proof (rule bit_word_eqI)
  fix k assume "len < 128" "k < LENGTH(8)"
  have "bit (0x80 :: byte) k \<Longrightarrow> k = 7" using bit_push_bit_iff [of 7 "1 :: byte" k] by (auto simp: bit_simps)
  with \<open>len < 128\<close> show "bit ((ucast len :: byte) AND 0x80) k = bit (0 :: byte) k"
    using short_bit by (auto simp: bit_simps)
qed

lemma short_ucast: "len < 128 \<Longrightarrow> ucast (ucast len :: byte) = (len :: 32 word)"
proof (rule bit_word_eqI)
  fix k assume "len < 128"
  then show "bit (ucast (ucast len :: byte) :: 32 word) k = bit len k" if "k < LENGTH(32)"
    using short_bit [of len k] that by (cases "7 \<le> k") (auto simp: bit_simps)
qed

interpretation Len: codec writeLen readLen "\<lambda>_. True"
proof
  fix len s
  show "readLen (writeLen len @ s) = (Inr len, s)"
  proof (cases "len < 128")
    case True
    then show ?thesis
      by (simp add: readLen_def writeLen_def rd_bind_def short_octet short_ucast)
  next
    case False
    have "foldl (\<lambda>len b. push_bit 8 len OR ucast b) 0 (be_bytes (lenlen len) len) = len"
      using be_word_be_bytes [of "lenlen len" len] by (simp add: be_word_def lenlen_enough)
    with False show ?thesis
      using lenlen_bounds [of len]
      by (simp add: readLen_def writeLen_def rd_bind_def netlen_be_bytes lenlen_octet read_bytes_append)
  qed
qed


lemma length_writeLen: "length (writeLen len) = (if len < 128 then 1 else Suc (lenlen len))"
  by (simp add: writeLen_def netlen_be_bytes)

section \<open>Readers that do not lengthen the stream\<close>

text \<open>
  A reader that leaves no more bytes than it found, and one that has also used up at least one byte
  whenever it returns a value: the reason why a loop over such a reader ends.
\<close>

definition shrinks :: "'a reader \<Rightarrow> bool" where
  "shrinks rd \<longleftrightarrow> (\<forall>s. length (snd (rd s)) \<le> length s)"

definition consumes :: "'a reader \<Rightarrow> bool" where
  "consumes rd \<longleftrightarrow> shrinks rd \<and> (\<forall>s x s'. rd s = (Inr x, s') \<longrightarrow> length s' < length s)"

named_theorems shrink_intros

lemma shrinks_return [shrink_intros]: "shrinks (rd_return x)"
  by (simp add: shrinks_def)

lemma shrinks_throw [shrink_intros]: "shrinks (rd_throw e)"
  by (simp add: shrinks_def)

lemma shrinks_bind [shrink_intros]: "shrinks m \<Longrightarrow> (\<And>x. shrinks (f x)) \<Longrightarrow> shrinks (rd_bind m f)"
proof -
  assume m: "shrinks m" and f: "\<And>x. shrinks (f x)"
  have "length (snd (rd_bind m f s)) \<le> length s" for s
  proof (cases "m s")
    case (Pair r s')
    with m have "length s' \<le> length s" by (metis shrinks_def snd_conv)
    with Pair f show ?thesis by (cases r) (auto simp: rd_bind_def shrinks_def intro: le_trans)
  qed
  then show ?thesis by (simp add: shrinks_def)
qed

lemma shrinks_read_bytes [shrink_intros]: "shrinks (read_bytes n)"
  by (simp add: shrinks_def read_bytes_def)

lemma shrinks_if [shrink_intros]: "shrinks a \<Longrightarrow> shrinks b \<Longrightarrow> shrinks (if c then a else b)"
  by simp

lemma consumes_shrinks: "consumes rd \<Longrightarrow> shrinks rd"
  by (simp add: consumes_def)

lemma consumes_bind: "consumes m \<Longrightarrow> (\<And>x. shrinks (f x)) \<Longrightarrow> consumes (rd_bind m f)"
proof -
  assume m: "consumes m" and f: "\<And>x. shrinks (f x)"
  have "length s' < length s" if r: "rd_bind m f s = (Inr y, s')" for s y s'
  proof (cases "m s")
    case (Pair q t)
    with r obtain x where x: "q = Inr x" "f x t = (Inr y, s')" by (cases q) (auto simp: rd_bind_def)
    have "length s' \<le> length t" using f [of x] x(2) by (metis shrinks_def snd_conv)
    moreover have "length t < length s" using m Pair x(1) by (auto simp: consumes_def)
    ultimately show ?thesis by simp
  qed
  then show ?thesis using m f by (auto simp: consumes_def intro: shrinks_bind)
qed

lemma consumes_UInt8: "consumes read_UInt8"
proof -
  have "read_UInt8 s = (case s of [] \<Rightarrow> (Inl IOException, []) | b # t \<Rightarrow> (Inr b, t))" for s
    by (cases s) (simp_all add: read_UInt8_Nil)
  then show ?thesis by (auto simp: consumes_def shrinks_def split: list.splits)
qed

lemmas shrinks_UInt8 [shrink_intros] = consumes_shrinks [OF consumes_UInt8]

lemma shrinks_ints [shrink_intros]: "shrinks read_UInt16" "shrinks read_UInt32" "shrinks read_UInt64"
  unfolding read_UInt16_def read_UInt32_def read_UInt64_def by (intro shrink_intros)+

lemma shrinks_readLen [shrink_intros]: "shrinks readLen"
  unfolding readLen_def by (intro shrink_intros)

section \<open>Signatures\<close>

text \<open>\<^verbatim>\<open>BinarySerialization::verifySignature\<close>, and \<^verbatim>\<open>CIMBase::readSig\<close> and \<^verbatim>\<open>writeSig\<close> in both forms.\<close>

definition verifySignature :: "byte \<Rightarrow> unit reader" where
  "verifySignature validSig = rd_bind read_UInt8 (\<lambda>val.
     if val \<noteq> validSig then rd_throw BadCIMSignatureException else rd_return ())"

definition readSig :: "char \<Rightarrow> unit reader" where
  "readSig sig = rd_bind read_UInt8 (\<lambda>ch.
     if of_char sig \<noteq> ch then rd_throw BadCIMSignatureException else rd_return ())"

definition readSig_version :: "char \<Rightarrow> char \<Rightarrow> 32 word \<Rightarrow> 32 word reader" where
  "readSig_version sig verSig maxVersion = rd_bind read_UInt8 (\<lambda>ch.
     if of_char sig \<noteq> ch then
       if of_char verSig \<noteq> ch then rd_throw BadCIMSignatureException
       else rd_bind readLen (\<lambda>version.
              if version > maxVersion then rd_throw BadCIMSignatureException else rd_return version)
     else rd_return 0)"

definition writeSig :: "char \<Rightarrow> byte list" where
  "writeSig sig = [of_char sig]"

definition writeSig_version :: "char \<Rightarrow> 32 word \<Rightarrow> byte list" where
  "writeSig_version sig version = of_char sig # writeLen version"

lemma verifySignature_Cons [simp]:
  "verifySignature b (c # s) = (if c = b then Inr () else Inl BadCIMSignatureException, s)"
  by (simp add: verifySignature_def rd_bind_def)

lemma readSig_Cons [simp]:
  "readSig c (b # s) = (if b = of_char c then Inr () else Inl BadCIMSignatureException, s)"
  by (auto simp: readSig_def rd_bind_def)

lemma readSig_writeSig [codec_simps]: "rd_bind (readSig c) f (writeSig c @ s) = f () s"
  by (simp add: writeSig_def rd_bind_def)

lemma readSig_version_old [codec_simps]:
  "rd_bind (readSig_version c v m) f (writeSig c @ s) = f 0 s"
  by (simp add: readSig_version_def writeSig_def rd_bind_def)

lemma readSig_version_new [codec_simps]:
  "c \<noteq> v \<Longrightarrow> n \<le> m \<Longrightarrow>
   rd_bind (readSig_version c v m) f (writeSig_version v n @ s) = f n s"
  by (simp add: readSig_version_def writeSig_version_def rd_bind_def Len.rd_wr leD)

lemma readSig_version_unknown:
  "c \<noteq> v \<Longrightarrow> m < n \<Longrightarrow>
   readSig_version c v m (writeSig_version v n @ s) = (Inl BadCIMSignatureException, s)"
  by (simp add: readSig_version_def writeSig_version_def rd_bind_def Len.rd_wr)

lemma readSig_version_bad:
  "b \<noteq> of_char c \<Longrightarrow> b \<noteq> of_char v \<Longrightarrow> readSig_version c v m (b # s) = (Inl BadCIMSignatureException, s)"
  by (simp add: readSig_version_def rd_bind_def)

lemma readSig_bad [codec_simps]:
  "b \<noteq> of_char c \<Longrightarrow> rd_bind (readSig c) f (b # s) = (Inl BadCIMSignatureException, s)"
  by (simp add: rd_bind_def)

lemma readSig_version_bad_bind [codec_simps]:
  "b \<noteq> of_char c \<Longrightarrow> b \<noteq> of_char v \<Longrightarrow>
   rd_bind (readSig_version c v m) f (b # s) = (Inl BadCIMSignatureException, s)"
  by (simp add: rd_bind_def readSig_version_bad)

lemma consumes_sigs: "consumes (verifySignature b)" "consumes (readSig c)" "consumes (readSig_version c v m)"
  unfolding verifySignature_def readSig_def readSig_version_def
  by (rule consumes_bind [OF consumes_UInt8]; intro shrink_intros)+

lemmas shrinks_sigs [shrink_intros] = consumes_sigs [THEN consumes_shrinks]

section \<open>Arrays\<close>

text \<open>
  \<^verbatim>\<open>writeArray\<close> and \<^verbatim>\<open>readArray\<close>. The number of elements is a \<^verbatim>\<open>UInt32\<close>, also the bound of both loops.
\<close>

fun read_n :: "nat \<Rightarrow> 'a reader \<Rightarrow> 'a list reader" where
  "read_n 0 rd = rd_return []"
| "read_n (Suc n) rd = rd_bind rd (\<lambda>x. rd_bind (read_n n rd) (\<lambda>xs. rd_return (x # xs)))"

definition readArray :: "'a reader \<Rightarrow> 'a list reader" where
  "readArray rd = rd_bind readLen (\<lambda>len. read_n (unat len) rd)"

definition writeArray :: "('a \<Rightarrow> byte list) \<Rightarrow> 'a list \<Rightarrow> byte list" where
  "writeArray wr a = (let len = of_nat (length a) :: 32 word
                      in writeLen len @ concat (map wr (take (unat len) a)))"

definition array_ok :: "('a \<Rightarrow> bool) \<Rightarrow> 'a list \<Rightarrow> bool" where
  "array_ok ok a \<longleftrightarrow> length a < 2 ^ 32 \<and> list_all ok a"

lemma unat_of_nat_32: "n < 2 ^ 32 \<Longrightarrow> unat (of_nat n :: 32 word) = n"
  by (simp add: unsigned_of_nat take_bit_nat_eq_self)

lemma writeArray_small: "length a < 2 ^ 32 \<Longrightarrow> writeArray wr a = writeLen (of_nat (length a)) @ concat (map wr a)"
  by (simp add: writeArray_def Let_def unat_of_nat_32)

lemma writeArray_cong: "(\<And>x. x \<in> set a \<Longrightarrow> wr x = wr' x) \<Longrightarrow> writeArray wr a = writeArray wr' a"
  unfolding writeArray_def Let_def
  by (rule arg_cong [of _ _ "\<lambda>b. writeLen (of_nat (length a)) @ concat b"], rule map_cong [OF refl]) (meson in_set_takeD)

lemma read_n_concat:
  "(\<And>x s. x \<in> set xs \<Longrightarrow> rd (wr x @ s) = (Inr x, s)) \<Longrightarrow> read_n (length xs) rd (concat (map wr xs) @ s) = (Inr xs, s)"
  by (induction xs) (simp_all add: rd_bind_def)

lemma readArray_writeArray:
  assumes "length xs < 2 ^ 32" and "\<And>x s. x \<in> set xs \<Longrightarrow> rd (wr x @ s) = (Inr x, s)"
  shows "readArray rd (writeArray wr xs @ s) = (Inr xs, s)"
  using assms by (simp add: readArray_def writeArray_small Len.bind_wr unat_of_nat_32 read_n_concat)

lemma shrinks_read_n [shrink_intros]: "shrinks rd \<Longrightarrow> shrinks (read_n n rd)"
  by (induction n) (auto intro!: shrink_intros)

lemma shrinks_readArray [shrink_intros]: "shrinks rd \<Longrightarrow> shrinks (readArray rd)"
  unfolding readArray_def by (intro shrink_intros)

context codec
begin

lemma array_codec: "codec (writeArray wr) (readArray rd) (array_ok ok)"
  by (rule codec.intro) (auto simp: array_ok_def list_all_iff rd_wr intro: readArray_writeArray)

end

section \<open>Streams of the library classes\<close>

text \<open>
  \<^verbatim>\<open>String\<close>, \<^verbatim>\<open>Bool\<close> and \<^verbatim>\<open>Char16\<close> belong to the blocxx library. What the code uses of their stream
  forms is a parameter \<open>io\<close>; \<open>raw_Bool\<close> and \<open>Bool_raw\<close> are the memory image of a \<^verbatim>\<open>Bool\<close>, of \<open>sizeof_Bool\<close>
  bytes, which \<^verbatim>\<open>OW_CIMValue.cpp\<close> copies for the elements of an array. What it relies on is that
  \<^verbatim>\<open>readObject\<close> gives back what \<^verbatim>\<open>writeObject\<close> wrote, for strings whose length fits into 32 bits, and
  that no reader lengthens the stream.
\<close>

record blocxx_io =
  wr_String :: "string \<Rightarrow> byte list"
  rd_String :: "string reader"
  wr_Bool :: "bool \<Rightarrow> byte list"
  rd_Bool :: "bool reader"
  wr_Char16 :: "16 word \<Rightarrow> byte list"
  rd_Char16 :: "16 word reader"
  sizeof_Bool :: nat
  raw_Bool :: "bool \<Rightarrow> byte list"
  Bool_raw :: "byte list \<Rightarrow> bool"

definition str_ok :: "string \<Rightarrow> bool" where
  "str_ok str \<longleftrightarrow> length str < 2 ^ 32"

definition io_ok :: "blocxx_io \<Rightarrow> bool" where
  "io_ok io \<longleftrightarrow>
     (\<forall>str s. str_ok str \<longrightarrow> rd_String io (wr_String io str @ s) = (Inr str, s)) \<and>
     (\<forall>b s. rd_Bool io (wr_Bool io b @ s) = (Inr b, s)) \<and>
     (\<forall>c s. rd_Char16 io (wr_Char16 io c @ s) = (Inr c, s)) \<and>
     (\<forall>b. length (raw_Bool io b) = sizeof_Bool io \<and> Bool_raw io (raw_Bool io b) = b)"

definition io_shrinks :: "blocxx_io \<Rightarrow> bool" where
  "io_shrinks io \<longleftrightarrow> shrinks (rd_String io) \<and> shrinks (rd_Bool io) \<and> shrinks (rd_Char16 io)"

lemma io_shrinksD [shrink_intros]:
  "io_shrinks io \<Longrightarrow> shrinks (rd_String io)" "io_shrinks io \<Longrightarrow> shrinks (rd_Bool io)" "io_shrinks io \<Longrightarrow> shrinks (rd_Char16 io)"
  by (simp_all add: io_shrinks_def)

definition read_raw_Bool :: "blocxx_io \<Rightarrow> bool reader" where
  "read_raw_Bool io = rd_bind (read_bytes (sizeof_Bool io)) (\<lambda>bs. rd_return (Bool_raw io bs))"

lemma shrinks_raw_Bool [shrink_intros]: "shrinks (read_raw_Bool io)"
  unfolding read_raw_Bool_def by (intro shrink_intros)

locale blocxx_streams =
  fixes io :: blocxx_io
  assumes io: "io_ok io"

sublocale blocxx_streams \<subseteq> Str: codec "wr_String io" "rd_String io" str_ok
  using io by unfold_locales (simp add: io_ok_def)

sublocale blocxx_streams \<subseteq> Bol: codec "wr_Bool io" "rd_Bool io" "\<lambda>_. True"
  using io by unfold_locales (simp add: io_ok_def)

sublocale blocxx_streams \<subseteq> Chr: codec "wr_Char16 io" "rd_Char16 io" "\<lambda>_. True"
  using io by unfold_locales (simp add: io_ok_def)

sublocale blocxx_streams \<subseteq> RawBool: codec "raw_Bool io" "read_raw_Bool io" "\<lambda>_. True"
  using io by unfold_locales (simp add: io_ok_def read_raw_Bool_def rd_bind_def read_bytes_append)

text \<open>
  A concrete choice of the parameter: a string is its length and its characters, a truth value and a
  16-bit character their bytes.
\<close>

definition ex_io :: blocxx_io where
  "ex_io = \<lparr>wr_String = (\<lambda>str. writeArray (\<lambda>c. [of_char c]) str),
            rd_String = readArray (rd_bind read_UInt8 (\<lambda>b. rd_return (char_of (unat b)))),
            wr_Bool = (\<lambda>b. [if b then 1 else 0]),
            rd_Bool = rd_bind read_UInt8 (\<lambda>b. rd_return (b \<noteq> 0)),
            wr_Char16 = write_UInt16, rd_Char16 = read_UInt16,
            sizeof_Bool = 1, raw_Bool = (\<lambda>b. [if b then 1 else 0]), Bool_raw = (\<lambda>bs. bs \<noteq> [0])\<rparr>"

lemma io_ok_ex_io: "io_ok ex_io"
proof -
  have "readArray (rd_bind read_UInt8 (\<lambda>b. rd_return (char_of (unat b)))) (writeArray (\<lambda>c. [of_char c]) str @ s) = (Inr str, s)"
    if "str_ok str" for str s
    using that by (intro readArray_writeArray) (auto simp: str_ok_def rd_bind_def byte_char)
  then show ?thesis
    by (simp add: io_ok_def ex_io_def UInt16.rd_wr rd_bind_def [where m = read_UInt8])
qed

lemma io_shrinks_ex_io: "io_shrinks ex_io"
  by (auto simp: io_shrinks_def ex_io_def intro!: shrink_intros)

interpretation ex: blocxx_streams ex_io
  by unfold_locales (rule io_ok_ex_io)

section \<open>Values with a signature of the protocol\<close>

definition BINSIG_BOOL :: byte where "BINSIG_BOOL = 104"
definition BINSIG_STR :: byte where "BINSIG_STR = 106"
definition BINSIG_STRARRAY :: byte where "BINSIG_STRARRAY = 107"

definition writeBool :: "blocxx_io \<Rightarrow> bool \<Rightarrow> byte list" where
  "writeBool io arg = write_UInt8 BINSIG_BOOL @ wr_Bool io arg"

definition readBool :: "blocxx_io \<Rightarrow> bool reader" where
  "readBool io = rd_bind (verifySignature BINSIG_BOOL) (\<lambda>_. rd_Bool io)"

definition writeString :: "blocxx_io \<Rightarrow> string \<Rightarrow> byte list" where
  "writeString io str = write_UInt8 BINSIG_STR @ wr_String io str"

definition readString :: "blocxx_io \<Rightarrow> string reader" where
  "readString io = rd_bind (verifySignature BINSIG_STR) (\<lambda>_. rd_String io)"

definition writeStringArray :: "blocxx_io \<Rightarrow> string list \<Rightarrow> byte list" where
  "writeStringArray io stra = write_UInt8 BINSIG_STRARRAY @ writeArray (wr_String io) stra"

definition readStringArray :: "blocxx_io \<Rightarrow> string list reader" where
  "readStringArray io = rd_bind (verifySignature BINSIG_STRARRAY) (\<lambda>_. readArray (rd_String io))"

text \<open>The optional property list: \<open>None\<close> is the null pointer.\<close>

definition writePropertyList :: "blocxx_io \<Rightarrow> string list option \<Rightarrow> byte list" where
  "writePropertyList io propertyList = writeBool io (propertyList = None) @
     (case propertyList of None \<Rightarrow> [] | Some l \<Rightarrow> writeStringArray io l)"

definition readPropertyList :: "blocxx_io \<Rightarrow> string list option reader" where
  "readPropertyList io = rd_bind (readBool io) (\<lambda>nullPropertyList.
     if \<not> nullPropertyList then rd_bind (readStringArray io) (\<lambda>l. rd_return (Some l)) else rd_return None)"

sublocale blocxx_streams \<subseteq> SBool: codec "writeBool io" "readBool io" "\<lambda>_. True"
  by unfold_locales (simp add: writeBool_def readBool_def write_UInt8_def rd_bind_def Bol.rd_wr)

sublocale blocxx_streams \<subseteq> SString: codec "writeString io" "readString io" str_ok
  by unfold_locales (simp add: writeString_def readString_def write_UInt8_def rd_bind_def Str.rd_wr)

sublocale blocxx_streams \<subseteq> SStringArray: codec "writeStringArray io" "readStringArray io" "array_ok str_ok"
  by unfold_locales
    (simp add: writeStringArray_def readStringArray_def write_UInt8_def rd_bind_def codecD [OF Str.array_codec])

sublocale blocxx_streams \<subseteq> PropertyList:
  codec "writePropertyList io" "readPropertyList io" "\<lambda>pl. case pl of None \<Rightarrow> True | Some l \<Rightarrow> array_ok str_ok l"
  by unfold_locales
    (auto simp: writePropertyList_def readPropertyList_def rd_bind_def SBool.rd_wr SStringArray.rd_wr split: option.splits)

section \<open>Enumerations\<close>

text \<open>
  \<^verbatim>\<open>readEnum\<close>: objects are read and handed to the handler until a read fails with
  \<^verbatim>\<open>BadCIMSignatureException\<close>; the byte that made it fail is gone by then, and the next one has to
  be the end signature. The result is the list of the objects handed over and what came of the
  call. The writer of an enumeration (\<^verbatim>\<open>OW_BinaryRequestHandler.cpp\<close>) puts the end signature
  twice.
\<close>

partial_function (option) readEnum_loop ::
  "'a reader \<Rightarrow> byte \<Rightarrow> 'a list \<Rightarrow> byte list \<Rightarrow> ('a list \<times> unit result \<times> byte list) option" where
  "readEnum_loop rd endsig handled s =
     (case rd s of
        (Inr x, s') \<Rightarrow> readEnum_loop rd endsig (handled @ [x]) s'
      | (Inl e, s') \<Rightarrow> if e = BadCIMSignatureException then Some (handled, verifySignature endsig s')
                       else Some (handled, (Inl e, s')))"

definition readEnum :: "'a reader \<Rightarrow> byte \<Rightarrow> byte \<Rightarrow> byte list \<Rightarrow> ('a list \<times> unit result \<times> byte list) option" where
  "readEnum rd beginsig endsig s =
     (case verifySignature beginsig s of
        (Inl e, s') \<Rightarrow> Some ([], (Inl e, s'))
      | (Inr _, s') \<Rightarrow> readEnum_loop rd endsig [] s')"

definition writeEnum :: "('a \<Rightarrow> byte list) \<Rightarrow> byte \<Rightarrow> byte \<Rightarrow> 'a list \<Rightarrow> byte list" where
  "writeEnum wr beginsig endsig xs =
     write_UInt8 beginsig @ concat (map wr xs) @ write_UInt8 endsig @ write_UInt8 endsig"

lemma readEnum_loop_returns: "consumes rd \<Longrightarrow> \<exists>r. readEnum_loop rd endsig handled s = Some r"
proof (induction "length s" arbitrary: handled s rule: less_induct)
  case less
  show ?case
  proof (cases "rd s")
    case (Pair r s')
    show ?thesis
    proof (cases r)
      case (Inr x)
      then have "length s' < length s" using less.prems Pair by (auto simp: consumes_def)
      with less Inr Pair show ?thesis by (subst readEnum_loop.simps) simp
    qed (use Pair in \<open>subst readEnum_loop.simps, auto\<close>)
  qed
qed

lemma readEnum_returns: "consumes rd \<Longrightarrow> \<exists>r. readEnum rd beginsig endsig s = Some r"
  using readEnum_loop_returns [of rd endsig "[]" "snd (verifySignature beginsig s)"]
  by (cases "verifySignature beginsig s"; cases "fst (verifySignature beginsig s)") (simp_all add: readEnum_def)

text \<open>A codec whose reader refuses a first byte that is none of its signatures, and leaves the rest.\<close>

locale signed_codec = codec +
  fixes sigs :: "byte list"
  assumes rd_bad: "b \<notin> set sigs \<Longrightarrow> rd (b # s) = (Inl BadCIMSignatureException, s)"
begin

lemma loop_wr:
  "list_all ok xs \<Longrightarrow> b \<notin> set sigs \<Longrightarrow>
   readEnum_loop rd endsig handled (concat (map wr xs) @ b # endsig # s) = Some (handled @ xs, Inr (), s)"
proof (induction xs arbitrary: handled)
  case Nil
  then show ?case by (subst readEnum_loop.simps) (simp add: rd_bad)
next
  case (Cons x xs)
  then show ?case by (subst readEnum_loop.simps) (simp add: rd_wr)
qed

lemma readEnum_writeEnum:
  "list_all ok xs \<Longrightarrow> endsig \<notin> set sigs \<Longrightarrow>
   readEnum rd beginsig endsig (writeEnum wr beginsig endsig xs @ s) = Some (xs, Inr (), s)"
  by (simp add: readEnum_def writeEnum_def write_UInt8_def loop_wr)

end

sublocale blocxx_streams \<subseteq> StringEnum: signed_codec "writeString io" "readString io" str_ok "[BINSIG_STR]"
  by unfold_locales (simp add: readString_def rd_bind_def)

context blocxx_streams
begin

lemmas string_enum = StringEnum.readEnum_writeEnum

end

section \<open>Properties\<close>

text \<open>
  C16: \<^verbatim>\<open>readLen\<close> gives back every 32-bit length that \<^verbatim>\<open>writeLen\<close> wrote, leaves what follows it untouched, and no length takes
  more than five octets.
\<close>

theorem readLen_writeLen:
  "readLen (writeLen len @ s) = (Inr len, s) \<and> 1 \<le> length (writeLen len) \<and> length (writeLen len) \<le> 5"
  using lenlen_bounds [of len] by (simp add: Len.rd_wr length_writeLen)

text \<open>
  C17: \<^verbatim>\<open>readEnum\<close> hands the strings of an enumeration to its handler in the order in which they were written and ends normally
  with the stream behind the enumeration.
\<close>

theorem string_enum_roundtrip:
  assumes "io_ok io" "list_all str_ok xs" "endsig \<noteq> BINSIG_STR"
  shows "readEnum (readString io) beginsig endsig (writeEnum (writeString io) beginsig endsig xs @ s) = Some (xs, Inr (), s)"
  using blocxx_streams.string_enum [OF blocxx_streams.intro [OF assms(1)], of xs endsig beginsig s] assms
  by simp

theorem string_enum_roundtrip_witness:
  "readEnum (readString ex_io) 115 154 (writeEnum (writeString ex_io) 115 154 [''CIM_Foo'', []] @ [7]) = Some ([''CIM_Foo'', []], Inr (), [7])"
  by (rule string_enum_roundtrip) (simp_all add: io_ok_ex_io str_ok_def BINSIG_STR_def)

text \<open>
  C18: \<^verbatim>\<open>readEnum\<close> returns on every stream, whatever bytes it holds: each string it reads takes at least its signature from the
  stream.
\<close>

theorem string_enum_returns:
  assumes "io_shrinks io"
  shows "\<exists>handled r s'. readEnum (readString io) beginsig endsig s = Some (handled, r, s')"
proof -
  have "consumes (readString io)" unfolding readString_def
    by (intro consumes_bind consumes_sigs io_shrinksD assms)
  then show ?thesis using readEnum_returns by (metis prod_cases3)
qed

theorem string_enum_returns_witness:
  "\<exists>handled r s'. readEnum (readString ex_io) 115 154 [115, 106, 255] = Some (handled, r, s')"
  by (rule string_enum_returns [OF io_shrinks_ex_io])
end
