(* ===== verification/CIM_DataType.thy ===== *)
theory CIM_DataType
  imports CIM_Stream
begin

text \<open>
  \<^verbatim>\<open>cim/OW_CIMDataType.hpp\<close> and \<^verbatim>\<open>OW_CIMDataType.cpp\<close>: the CIM types, their names, the finite automaton
  that recognises a type name and the stream form of a data type.

  The automaton of \<^verbatim>\<open>strToSimpleType\<close> was generated by re2c and then edited by hand. It is translated
  label by label and shown to recognise exactly the type names of the comment that documents it,
  in either case, and never to look at a character after the terminating null.
\<close>

section \<open>Types\<close>

text \<open>
  The enumeration \<^verbatim>\<open>CIMDataType::Type\<close>. \<^verbatim>\<open>readObject\<close> casts any number it reads to the enumeration:
  \<open>OTHERTYPE n\<close> is such a number that is no enumerator.
\<close>

datatype Type = CIMNULL
  | UINT8
  | SINT8
  | UINT16
  | SINT16
  | UINT32
  | SINT32
  | UINT64
  | SINT64
  | STRING
  | BOOLEAN
  | REAL32
  | REAL64
  | DATETIME
  | CHAR16
  | REFERENCE
  | EMBEDDEDCLASS
  | EMBEDDEDINSTANCE
  | MAXDATATYPE | INVALID | OTHERTYPE "32 word"

fun Type_num :: "Type \<Rightarrow> 32 word" where
  "Type_num CIMNULL = 0"
| "Type_num UINT8 = 1"
| "Type_num SINT8 = 2"
| "Type_num UINT16 = 3"
| "Type_num SINT16 = 4"
| "Type_num UINT32 = 5"
| "Type_num SINT32 = 6"
| "Type_num UINT64 = 7"
| "Type_num SINT64 = 8"
| "Type_num STRING = 9"
| "Type_num BOOLEAN = 10"
| "Type_num REAL32 = 11"
| "Type_num REAL64 = 12"
| "Type_num DATETIME = 13"
| "Type_num CHAR16 = 14"
| "Type_num REFERENCE = 15"
| "Type_num EMBEDDEDCLASS = 16"
| "Type_num EMBEDDEDINSTANCE = 17"
| "Type_num MAXDATATYPE = 18"
| "Type_num INVALID = 99"
| "Type_num (OTHERTYPE n) = n"

definition enumerators :: "Type list" where
  "enumerators = [CIMNULL, UINT8, SINT8, UINT16, SINT16, UINT32, SINT32, UINT64, SINT64, STRING, BOOLEAN, REAL32, REAL64, DATETIME, CHAR16, REFERENCE, EMBEDDEDCLASS, EMBEDDEDINSTANCE, MAXDATATYPE, INVALID]"

definition Type_cast :: "32 word \<Rightarrow> Type" where
  "Type_cast n = (case find (\<lambda>t. Type_num t = n) enumerators of Some t \<Rightarrow> t | None \<Rightarrow> OTHERTYPE n)"

text \<open>\<open>MAXDATATYPE\<close> and the values above it mark no type.\<close>

fun valid_Type :: "Type \<Rightarrow> bool" where
  "valid_Type MAXDATATYPE = False"
| "valid_Type INVALID = False"
| "valid_Type (OTHERTYPE n) = False"
| "valid_Type t = True"

definition wf_Type :: "Type \<Rightarrow> bool" where
  "wf_Type t \<longleftrightarrow> (case t of OTHERTYPE n \<Rightarrow> n \<notin> Type_num ` set enumerators | _ \<Rightarrow> True)"

lemma Type_cast_num: "wf_Type t \<Longrightarrow> Type_cast (Type_num t) = t"
  by (cases t) (simp_all add: Type_cast_def enumerators_def wf_Type_def find_None_iff split: option.splits)

lemma valid_Type_wf: "valid_Type t \<Longrightarrow> wf_Type t"
  by (cases t) (simp_all add: wf_Type_def)

lemma wf_Type_cast: "wf_Type (Type_cast n)"
proof (cases "find (\<lambda>t. Type_num t = n) enumerators")
  case None
  then have "n \<notin> Type_num ` set enumerators" by (auto simp: find_None_iff)
  with None show ?thesis by (simp add: Type_cast_def wf_Type_def)
next
  case (Some t)
  then have "t \<in> set enumerators" by (auto simp: find_Some_iff)
  with Some show ?thesis by (auto simp: Type_cast_def wf_Type_def enumerators_def)
qed

fun isNumericType :: "Type \<Rightarrow> bool" where
  "isNumericType UINT8 = True"
| "isNumericType SINT8 = True"
| "isNumericType UINT16 = True"
| "isNumericType SINT16 = True"
| "isNumericType UINT32 = True"
| "isNumericType SINT32 = True"
| "isNumericType UINT64 = True"
| "isNumericType SINT64 = True"
| "isNumericType REAL32 = True"
| "isNumericType REAL64 = True"
| "isNumericType _ = False"

fun Type_toString :: "Type \<Rightarrow> string" where
  "Type_toString UINT8 = ''uint8''"
| "Type_toString SINT8 = ''sint8''"
| "Type_toString UINT16 = ''uint16''"
| "Type_toString SINT16 = ''sint16''"
| "Type_toString UINT32 = ''uint32''"
| "Type_toString SINT32 = ''sint32''"
| "Type_toString UINT64 = ''uint64''"
| "Type_toString SINT64 = ''sint64''"
| "Type_toString STRING = ''string''"
| "Type_toString BOOLEAN = ''boolean''"
| "Type_toString REAL32 = ''real32''"
| "Type_toString REAL64 = ''real64''"
| "Type_toString DATETIME = ''datetime''"
| "Type_toString CHAR16 = ''char16''"
| "Type_toString REFERENCE = ''REF''"
| "Type_toString EMBEDDEDCLASS = ''string''"
| "Type_toString EMBEDDEDINSTANCE = ''string''"
| "Type_toString _ = ''** INVALID DATA TYPE IN CIMDATATYPE - toString **''"

section \<open>The automaton of type names\<close>

text \<open>
  The code at a label: a \<^verbatim>\<open>switch\<close> on the next character \<^verbatim>\<open>yych\<close> with the characters of each case and the
  label it goes to, and the label of the default; the two tests for the end of the string,
  \<open>If_ge l t\<close> for \<^verbatim>\<open>if (yych >= '\001') goto l; return t;\<close> and \<open>If_le l m\<close> for
  \<^verbatim>\<open>if (yych <= '\000') goto l; goto m;\<close>; and the labels where no character is read.
\<close>

datatype yy_node = Switch "(string \<times> int) list" int | If_ge int Type | If_le int int | Return Type | Goto int

definition yy_nodes :: "(int \<times> yy_node) list" where
  "yy_nodes =
     [(0, Switch [(''Bb'', 7), (''Cc'', 6), (''Dd'', 8), (''Rr'', 5), (''Ss'', 4), (''Uu'', 2)] 9),
      (2, Switch [(''Ii'', 82)] 3),
      (3, Return INVALID),
      (4, Switch [(''Ii'', 58), (''Tt'', 57)] 3),
      (5, Switch [(''Ee'', 35)] 3),
      (6, Switch [(''Hh'', 28)] 3),
      (7, Switch [(''Oo'', 20)] 3),
      (8, Switch [(''Aa'', 10)] 3),
      (9, Goto 3),
      (10, Switch [(''Tt'', 12)] 11),
      (11, Goto 3),
      (12, Switch [(''Ee'', 13)] 11),
      (13, Switch [(''Tt'', 14)] 11),
      (14, Switch [(''Ii'', 15)] 11),
      (15, Switch [(''Mm'', 16)] 11),
      (16, Switch [(''Ee'', 17)] 11),
      (17, If_ge 11 DATETIME),
      (20, Switch [(''Oo'', 21)] 11),
      (21, Switch [(''Ll'', 22)] 11),
      (22, Switch [(''Ee'', 23)] 11),
      (23, Switch [(''Aa'', 24)] 11),
      (24, Switch [(''Nn'', 25)] 11),
      (25, If_ge 11 BOOLEAN),
      (28, Switch [(''Aa'', 29)] 11),
      (29, Switch [(''Rr'', 30)] 11),
      (30, Switch [(''1'', 31)] 11),
      (31, Switch [(''6'', 32)] 11),
      (32, If_ge 11 CHAR16),
      (35, Switch [(''Aa'', 36), (''Ff'', 37)] 11),
      (36, Switch [(''Ll'', 48)] 11),
      (37, Switch [([CHR 0x00], 39), (''Ee'', 38)] 11),
      (38, Switch [(''Rr'', 41)] 11),
      (39, Return REFERENCE),
      (41, Switch [(''Ee'', 42)] 11),
      (42, Switch [(''Nn'', 43)] 11),
      (43, Switch [(''Cc'', 44)] 11),
      (44, Switch [(''Ee'', 45)] 11),
      (45, If_ge 11 REFERENCE),
      (48, Switch [(''3'', 49), (''6'', 50)] 11),
      (49, Switch [(''2'', 54)] 11),
      (50, Switch [(''4'', 51)] 11),
      (51, If_ge 11 REAL64),
      (54, If_ge 11 REAL32),
      (57, Switch [(''Rr'', 76)] 11),
      (58, Switch [(''Nn'', 59)] 11),
      (59, Switch [(''Tt'', 60)] 11),
      (60, Switch [(''1'', 62), (''3'', 63), (''6'', 64), (''8'', 61)] 11),
      (61, If_le 74 11),
      (62, Switch [(''6'', 71)] 11),
      (63, Switch [(''2'', 68)] 11),
      (64, Switch [(''4'', 65)] 11),
      (65, If_ge 11 SINT64),
      (68, If_ge 11 SINT32),
      (71, If_ge 11 SINT16),
      (74, Return SINT8),
      (76, Switch [(''Ii'', 77)] 11),
      (77, Switch [(''Nn'', 78)] 11),
      (78, Switch [(''Gg'', 79)] 11),
      (79, If_ge 11 STRING),
      (82, Switch [(''Nn'', 83)] 11),
      (83, Switch [(''Tt'', 84)] 11),
      (84, Switch [(''1'', 86), (''3'', 87), (''6'', 88), (''8'', 85)] 11),
      (85, If_le 98 11),
      (86, Switch [(''6'', 95)] 11),
      (87, Switch [(''2'', 92)] 11),
      (88, Switch [(''4'', 89)] 11),
      (89, If_ge 11 UINT64),
      (92, If_ge 11 UINT32),
      (95, If_ge 11 UINT16),
      (98, Return UINT8)]"

text \<open>The sign of a \<^verbatim>\<open>char\<close> is up to the implementation: \<open>sc\<close> tells whether it is signed.\<close>

definition char_value :: "bool \<Rightarrow> char \<Rightarrow> int" where
  "char_value sc c = (if sc \<and> 128 \<le> (of_char c :: int) then of_char c - 256 else of_char c)"

text \<open>Where a \<^verbatim>\<open>goto\<close> ends: at a label that reads the next character, or at a \<^verbatim>\<open>return\<close>.\<close>

definition yy_label :: "int \<Rightarrow> int + Type" where
  "yy_label n = (case map_of yy_nodes n of
       Some (Return t) \<Rightarrow> Inr t
     | Some (Goto m) \<Rightarrow> (case map_of yy_nodes m of Some (Return t) \<Rightarrow> Inr t | _ \<Rightarrow> Inl m)
     | _ \<Rightarrow> Inl n)"

fun yy_exec :: "bool \<Rightarrow> char \<Rightarrow> yy_node \<Rightarrow> int + Type" where
  "yy_exec sc yych (Switch cs d) =
     yy_label (case find (\<lambda>(xs, _). yych \<in> set xs) cs of Some (_, m) \<Rightarrow> m | None \<Rightarrow> d)"
| "yy_exec sc yych (If_ge m t) = (if 1 \<le> char_value sc yych then yy_label m else Inr t)"
| "yy_exec sc yych (If_le m k) = yy_label (if char_value sc yych \<le> 0 then m else k)"
| "yy_exec sc yych (Return t) = Inr t"
| "yy_exec sc yych (Goto m) = yy_label m"

definition yy_next :: "bool \<Rightarrow> int \<Rightarrow> char \<Rightarrow> int + Type" where
  "yy_next sc n yych = yy_exec sc yych (the (map_of yy_nodes n))"

text \<open>The list is the string without its terminating null; going on after it would be a read out of bounds.\<close>

fun yy_run :: "bool \<Rightarrow> int \<Rightarrow> string \<Rightarrow> Type result" where
  "yy_run sc n [] = (case yy_next sc n (CHR 0x00) of Inl _ \<Rightarrow> Inl OutOfBoundsException | Inr t \<Rightarrow> Inr t)"
| "yy_run sc n (c # cs) = (case yy_next sc n c of Inl m \<Rightarrow> yy_run sc m cs | Inr t \<Rightarrow> Inr t)"

definition strToSimpleType :: "bool \<Rightarrow> string \<Rightarrow> Type result" where
  "strToSimpleType sc strType = yy_run sc 0 strType"

section \<open>What the automaton recognises\<close>

text \<open>The type names of the documented regular expressions, and for each label the rest of the names that lead on from it.\<close>

definition to_lower :: "char \<Rightarrow> char" where
  "to_lower c = (if 65 \<le> (of_char c :: int) \<and> (of_char c :: int) \<le> 90 then char_of ((of_char c :: int) + 32) else c)"

definition to_upper :: "char \<Rightarrow> char" where
  "to_upper c = (if 97 \<le> (of_char c :: int) \<and> (of_char c :: int) \<le> 122 then char_of ((of_char c :: int) - 32) else c)"

definition type_names :: "(string \<times> Type) list" where
  "type_names =
     [(''boolean'', BOOLEAN),
      (''char16'', CHAR16),
      (''datetime'', DATETIME),
      (''real32'', REAL32),
      (''real64'', REAL64),
      (''ref'', REFERENCE),
      (''reference'', REFERENCE),
      (''sint16'', SINT16),
      (''sint32'', SINT32),
      (''sint64'', SINT64),
      (''sint8'', SINT8),
      (''string'', STRING),
      (''uint16'', UINT16),
      (''uint32'', UINT32),
      (''uint64'', UINT64),
      (''uint8'', UINT8)]"

definition yy_names :: "int \<Rightarrow> (string \<times> Type) list" where
  "yy_names n = the (map_of
     [(0, type_names),
      (2, [(''int16'', UINT16), (''int32'', UINT32), (''int64'', UINT64), (''int8'', UINT8)]),
      (4, [(''int16'', SINT16), (''int32'', SINT32), (''int64'', SINT64), (''int8'', SINT8), (''tring'', STRING)]),
      (5, [(''eal32'', REAL32), (''eal64'', REAL64), (''ef'', REFERENCE), (''eference'', REFERENCE)]),
      (6, [(''har16'', CHAR16)]),
      (7, [(''oolean'', BOOLEAN)]),
      (8, [(''atetime'', DATETIME)]),
      (10, [(''tetime'', DATETIME)]),
      (12, [(''etime'', DATETIME)]),
      (13, [(''time'', DATETIME)]),
      (14, [(''ime'', DATETIME)]),
      (15, [(''me'', DATETIME)]),
      (16, [(''e'', DATETIME)]),
      (17, [([], DATETIME)]),
      (20, [(''olean'', BOOLEAN)]),
      (21, [(''lean'', BOOLEAN)]),
      (22, [(''ean'', BOOLEAN)]),
      (23, [(''an'', BOOLEAN)]),
      (24, [(''n'', BOOLEAN)]),
      (25, [([], BOOLEAN)]),
      (28, [(''ar16'', CHAR16)]),
      (29, [(''r16'', CHAR16)]),
      (30, [(''16'', CHAR16)]),
      (31, [(''6'', CHAR16)]),
      (32, [([], CHAR16)]),
      (35, [(''al32'', REAL32), (''al64'', REAL64), (''f'', REFERENCE), (''ference'', REFERENCE)]),
      (36, [(''l32'', REAL32), (''l64'', REAL64)]),
      (37, [([], REFERENCE), (''erence'', REFERENCE)]),
      (38, [(''rence'', REFERENCE)]),
      (41, [(''ence'', REFERENCE)]),
      (42, [(''nce'', REFERENCE)]),
      (43, [(''ce'', REFERENCE)]),
      (44, [(''e'', REFERENCE)]),
      (45, [([], REFERENCE)]),
      (48, [(''32'', REAL32), (''64'', REAL64)]),
      (49, [(''2'', REAL32)]),
      (50, [(''4'', REAL64)]),
      (51, [([], REAL64)]),
      (54, [([], REAL32)]),
      (57, [(''ring'', STRING)]),
      (58, [(''nt16'', SINT16), (''nt32'', SINT32), (''nt64'', SINT64), (''nt8'', SINT8)]),
      (59, [(''t16'', SINT16), (''t32'', SINT32), (''t64'', SINT64), (''t8'', SINT8)]),
      (60, [(''16'', SINT16), (''32'', SINT32), (''64'', SINT64), (''8'', SINT8)]),
      (61, [([], SINT8)]),
      (62, [(''6'', SINT16)]),
      (63, [(''2'', SINT32)]),
      (64, [(''4'', SINT64)]),
      (65, [([], SINT64)]),
      (68, [([], SINT32)]),
      (71, [([], SINT16)]),
      (76, [(''ing'', STRING)]),
      (77, [(''ng'', STRING)]),
      (78, [(''g'', STRING)]),
      (79, [([], STRING)]),
      (82, [(''nt16'', UINT16), (''nt32'', UINT32), (''nt64'', UINT64), (''nt8'', UINT8)]),
      (83, [(''t16'', UINT16), (''t32'', UINT32), (''t64'', UINT64), (''t8'', UINT8)]),
      (84, [(''16'', UINT16), (''32'', UINT32), (''64'', UINT64), (''8'', UINT8)]),
      (85, [([], UINT8)]),
      (86, [(''6'', UINT16)]),
      (87, [(''2'', UINT32)]),
      (88, [(''4'', UINT64)]),
      (89, [([], UINT64)]),
      (92, [([], UINT32)]),
      (95, [([], UINT16)])] n)"

lemma char_int_eq: "a = b \<longleftrightarrow> (of_char a :: int) = of_char b"
  by simp

lemma of_char_to_lower:
  "(of_char (to_lower c) :: int) = (if 65 \<le> (of_char c :: int) \<and> (of_char c :: int) \<le> 90 then of_char c + 32 else of_char c)"
  by (simp add: to_lower_def)

lemma of_char_to_upper:
  "(of_char (to_upper c) :: int) = (if 97 \<le> (of_char c :: int) \<and> (of_char c :: int) \<le> 122 then of_char c - 32 else of_char c)"
  by (auto simp: to_upper_def)

lemma to_lower_iff: "to_lower l = l \<Longrightarrow> to_lower c = l \<longleftrightarrow> c = l \<or> c = to_upper l"
  unfolding char_int_eq of_char_to_lower of_char_to_upper by (auto split: if_splits)

lemma to_lower_idem [simp]: "to_lower (to_lower c) = to_lower c"
  unfolding char_int_eq of_char_to_lower by auto

lemma to_lower_nul: "to_lower c = CHR 0x00 \<longleftrightarrow> c = CHR 0x00"
  unfolding char_int_eq of_char_to_lower by auto

text \<open>
  A label is consistent with its names when each of its cases stands for one letter in both forms, or one
  digit, and the names that go on from the case are those that begin with that letter.
\<close>

definition rest_of :: "char \<Rightarrow> (string \<times> Type) list \<Rightarrow> (string \<times> Type) list" where
  "rest_of l ns = map (\<lambda>(w, t). (tl w, t)) (filter (\<lambda>(w, t). w \<noteq> [] \<and> hd w = l) ns)"

fun yy_ok :: "int \<times> yy_node \<Rightarrow> bool" where
  "yy_ok (n, Switch cs d) =
     (yy_label d = Inr INVALID \<and>
      map_of (yy_names n) [] = (case find (\<lambda>(xs, _). CHR 0x00 \<in> set xs) cs of
                                  None \<Rightarrow> None | Some (_, m) \<Rightarrow> (case yy_label m of Inl _ \<Rightarrow> None | Inr t \<Rightarrow> Some t)) \<and>
      list_all (\<lambda>(xs, m). xs = [CHR 0x00] \<or>
        (let l = to_lower (hd xs) in to_lower l = l \<and> (xs = [l] \<and> to_upper l = l \<or> xs = [to_upper l, l]) \<and>
           yy_label m = Inl m \<and> map_of yy_nodes m \<noteq> None \<and> yy_names m = rest_of l (yy_names n))) cs \<and>
      list_all (\<lambda>(w, t). w = [] \<or> list_ex (\<lambda>(xs, m). hd w \<in> set xs) cs) (yy_names n) \<and>
      (case find (\<lambda>(xs, _). CHR 0x00 \<in> set xs) cs of None \<Rightarrow> True | Some (_, m) \<Rightarrow> (case yy_label m of Inl _ \<Rightarrow> False | Inr _ \<Rightarrow> True)))"
| "yy_ok (n, If_ge m t) = (yy_label m = Inr INVALID \<and> yy_names n = [([], t)])"
| "yy_ok (n, If_le m k) = (yy_label k = Inr INVALID \<and> (case yy_label m of Inl _ \<Rightarrow> False | Inr t \<Rightarrow> yy_names n = [([], t)]))"
| "yy_ok _ = True"

lemma yy_all_ok: "list_all yy_ok yy_nodes"
  by code_simp

lemma map_of_rest: "map_of (rest_of l ns) w = map_of ns (l # w)"
proof (induction ns)
  case (Cons n ns)
  then show ?case by (cases n; cases "fst n") (auto simp: rest_of_def)
qed (simp add: rest_of_def)

lemma yy_ok_node: "map_of yy_nodes n = Some node \<Longrightarrow> yy_ok (n, node)"
  using yy_all_ok by (auto simp: list_all_iff dest: map_of_SomeD)

definition yy_reads :: "int \<Rightarrow> bool" where
  "yy_reads n \<longleftrightarrow> map_of yy_nodes n \<noteq> None \<and> yy_label n = Inl n"

lemma yy_reads_node:
  assumes "yy_reads n"
  obtains cs d where "map_of yy_nodes n = Some (Switch cs d)"
  | m t where "map_of yy_nodes n = Some (If_ge m t)"
  | m k where "map_of yy_nodes n = Some (If_le m k)"
proof -
  obtain node where node: "map_of yy_nodes n = Some node" using assms by (auto simp: yy_reads_def)
  have "list_all (\<lambda>(n, nd). case nd of Goto m \<Rightarrow> m \<noteq> n | _ \<Rightarrow> True) yy_nodes" by (simp add: yy_nodes_def)
  with node have "node = Goto m \<Longrightarrow> m \<noteq> n" for m by (auto simp: list_all_iff dest!: map_of_SomeD)
  with node assms that show ?thesis
    by (cases node) (auto simp: yy_reads_def yy_label_def split: option.splits yy_node.splits)
qed

lemma names_nul:
  assumes "yy_reads n"
  shows "yy_next sc n (CHR 0x00) = Inr (case map_of (yy_names n) [] of Some t \<Rightarrow> t | None \<Rightarrow> INVALID)"
  using assms
proof (cases rule: yy_reads_node)
  case (1 cs d)
  then show ?thesis using yy_ok_node [OF 1] by (auto simp: yy_next_def split: option.splits sum.splits)
next
  case (2 m t)
  then show ?thesis using yy_ok_node [OF 2] by (simp add: yy_next_def char_value_def)
next
  case (3 m k)
  then show ?thesis using yy_ok_node [OF 3] by (auto simp: yy_next_def char_value_def split: sum.splits)
qed

lemma case_letter:
  assumes "to_lower l = l" "xs = [l] \<and> to_upper l = l \<or> xs = [to_upper l, l]"
  shows "c \<in> set xs \<longleftrightarrow> to_lower c = l"
  using assms by (auto simp: to_lower_iff)

lemma yy_ok_case:
  assumes "yy_ok (n, Switch cs d)" "(xs, m) \<in> set cs" "c \<in> set xs" "c \<noteq> CHR 0x00"
  shows "yy_reads m" "map_of (yy_names n) (to_lower c # w) = map_of (yy_names m) w"
proof -
  define l where "l = to_lower (hd xs)"
  have l: "to_lower l = l" "xs = [l] \<and> to_upper l = l \<or> xs = [to_upper l, l]" "yy_label m = Inl m"
    "map_of yy_nodes m \<noteq> None" "yy_names m = rest_of l (yy_names n)"
    using assms by (auto simp: list_all_iff Let_def l_def)
  from l(3,4) show "yy_reads m" by (simp add: yy_reads_def)
  have "to_lower c = l" using case_letter [OF l(1,2)] assms(3) by blast
  with l(5) show "map_of (yy_names n) (to_lower c # w) = map_of (yy_names m) w" by (simp add: map_of_rest)
qed

lemma yy_ok_default:
  assumes ok: "yy_ok (n, Switch cs d)" and c: "\<And>xs m. (xs, m) \<in> set cs \<Longrightarrow> c \<notin> set xs" "to_lower c \<noteq> CHR 0x00"
  shows "map_of (yy_names n) (to_lower c # w) = None"
proof (rule ccontr)
  assume "map_of (yy_names n) (to_lower c # w) \<noteq> None"
  then obtain t where "(to_lower c # w, t) \<in> set (yy_names n)" by (auto dest: map_of_SomeD)
  with ok obtain xs m where xs: "(xs, m) \<in> set cs" "to_lower c \<in> set xs" by (auto simp: list_all_iff list_ex_iff)
  define l where "l = to_lower (hd xs)"
  have l: "to_lower l = l" "xs = [l] \<and> to_upper l = l \<or> xs = [to_upper l, l]"
    using ok xs c(2) by (auto simp: list_all_iff Let_def l_def)
  have "to_lower (to_lower c) = l" using case_letter [OF l] xs(2) by blast
  then have "to_lower c = l" by simp
  with case_letter [OF l] c(1) xs(1) show False by blast
qed

lemma names_step:
  assumes "yy_reads n" and "0 < char_value sc c"
  shows "(case yy_next sc n c of
            Inl m \<Rightarrow> yy_reads m \<and> (\<forall>w. map_of (yy_names n) (to_lower c # w) = map_of (yy_names m) w)
          | Inr t \<Rightarrow> t = INVALID \<and> (\<forall>w. map_of (yy_names n) (to_lower c # w) = None))"
  using assms(1)
proof (cases rule: yy_reads_node)
  case (1 cs d)
  note ok = yy_ok_node [OF 1]
  have nul: "c \<noteq> CHR 0x00" "to_lower c \<noteq> CHR 0x00" using assms(2) by (auto simp: to_lower_nul char_value_def)
  show ?thesis
  proof (cases "find (\<lambda>(xs, _). c \<in> set xs) cs")
    case None
    then have "(xs, m) \<in> set cs \<Longrightarrow> c \<notin> set xs" for xs m by (auto simp: find_None_iff)
    with yy_ok_default [OF ok _ nul(2)] None 1 ok show ?thesis by (simp add: yy_next_def)
  next
    case (Some p)
    obtain xs m where p: "p = (xs, m)" by (cases p)
    with Some have "(xs, m) \<in> set cs" "c \<in> set xs" by (auto simp: find_Some_iff) (metis nth_mem)
    from yy_ok_case [OF ok this nul(1)] Some p 1 show ?thesis by (simp add: yy_next_def yy_reads_def)
  qed
next
  case (2 m t)
  then show ?thesis using yy_ok_node [OF 2] assms(2) by (simp add: yy_next_def)
next
  case (3 m k)
  then show ?thesis using yy_ok_node [OF 3] assms(2) by (auto simp: yy_next_def split: sum.splits)
qed

lemma yy_run_names:
  "yy_reads n \<Longrightarrow> list_all (\<lambda>c. 0 < char_value sc c) s \<Longrightarrow>
   yy_run sc n s = Inr (case map_of (yy_names n) (map to_lower s) of Some t \<Rightarrow> t | None \<Rightarrow> INVALID)"
proof (induction s arbitrary: n)
  case Nil
  then show ?case by (simp add: names_nul)
next
  case (Cons c s)
  then show ?case using names_step [of n sc c] by (auto split: sum.splits)
qed

lemma yy_next_reads:
  assumes "yy_reads n"
  shows "case yy_next sc n c of Inl m \<Rightarrow> yy_reads m | Inr t \<Rightarrow> True"
  using assms
proof (cases rule: yy_reads_node)
  case (1 cs d)
  note ok = yy_ok_node [OF 1]
  show ?thesis
  proof (cases "c = CHR 0x00")
    case True
    with names_nul [OF assms] show ?thesis by simp
  next
    case False
    show ?thesis
    proof (cases "find (\<lambda>(xs, _). c \<in> set xs) cs")
      case (Some p)
      obtain xs m where p: "p = (xs, m)" by (cases p)
      with Some have "(xs, m) \<in> set cs" "c \<in> set xs" by (auto simp: find_Some_iff) (metis nth_mem)
      from yy_ok_case(1) [OF ok this False] Some p 1 show ?thesis by (simp add: yy_next_def yy_reads_def)
    qed (use 1 ok in \<open>simp add: yy_next_def\<close>)
  qed
next
  case (2 m t)
  then show ?thesis using yy_ok_node [OF 2] by (simp add: yy_next_def)
next
  case (3 m k)
  then show ?thesis using yy_ok_node [OF 3] by (auto simp: yy_next_def split: sum.splits)
qed

lemma yy_run_returns: "yy_reads n \<Longrightarrow> \<exists>t. yy_run sc n s = Inr t"
proof (induction s arbitrary: n)
  case Nil
  then show ?case by (simp add: names_nul)
next
  case (Cons c s)
  then show ?case using yy_next_reads [OF Cons.prems, of sc c] by (auto split: sum.splits)
qed

text \<open>
  A byte that is negative as a signed \<^verbatim>\<open>char\<close>: the tests for the end of the string take it for the null,
  the \<^verbatim>\<open>switch\<close> of the label after \<open>ref\<close> does not. \<open>ref_rest\<close> is the rest of that name at the labels on its way.
\<close>

definition ref_rest :: "int \<Rightarrow> string option" where
  "ref_rest n = map_of [(0, ''ref''), (5, ''ef''), (35, ''f''), (37, [])] n"

fun ref_ok :: "int \<times> yy_node \<Rightarrow> bool" where
  "ref_ok (n, Switch cs d) =
     (list_all (\<lambda>(xs, m). list_all (\<lambda>x. (of_char x :: int) < 128) xs \<and>
        (xs = [CHR 0x00] \<or> ref_rest m = (case ref_rest n of
             Some (k # w) \<Rightarrow> if k = to_lower (hd xs) then Some w else None | _ \<Rightarrow> None))) cs \<and>
      (ref_rest n = Some [] \<or> map_of (yy_names n) [] = None))"
| "ref_ok (n, _) = (ref_rest n = None)"

lemma ref_all_ok: "list_all ref_ok yy_nodes"
  by code_simp

lemma ref_ok_node: "map_of yy_nodes n = Some node \<Longrightarrow> ref_ok (n, node)"
  using ref_all_ok by (auto simp: list_all_iff dest: map_of_SomeD)

lemma ref_ok_case:
  assumes "ref_ok (n, Switch cs d)" "(xs, m) \<in> set cs" "xs \<noteq> [CHR 0x00]"
  shows "ref_rest m = (case ref_rest n of Some (k # w) \<Rightarrow> if k = to_lower (hd xs) then Some w else None | _ \<Rightarrow> None)"
  using assms unfolding ref_ok.simps list_all_iff by blast

lemma high_byte_value: "128 \<le> (of_char b :: int) \<Longrightarrow> char_value True b < 0"
  using of_char_mod_256 [of b, where 'a = int] pos_mod_bound [of 256 "of_char b :: int"] by (simp add: char_value_def)

lemma high_end:
  assumes "yy_reads n" and b: "128 \<le> (of_char b :: int)"
  shows "yy_next True n b = Inr (if ref_rest n = Some [] then INVALID
           else case map_of (yy_names n) [] of Some t \<Rightarrow> t | None \<Rightarrow> INVALID)"
  using assms(1)
proof (cases rule: yy_reads_node)
  case (1 cs d)
  have "b \<notin> set xs" if "(xs, m) \<in> set cs" for xs m
    using ref_ok_node [OF 1] that b by (fastforce simp: list_all_iff)
  then have "find (\<lambda>(xs, _). b \<in> set xs) cs = None" by (auto simp: find_None_iff)
  then show ?thesis using 1 yy_ok_node [OF 1] ref_ok_node [OF 1] by (auto simp: yy_next_def)
next
  case (2 m t)
  then show ?thesis using yy_ok_node [OF 2] ref_ok_node [OF 2] high_byte_value [OF b]
    by (simp add: yy_next_def)
next
  case (3 m k)
  then show ?thesis using yy_ok_node [OF 3] ref_ok_node [OF 3] high_byte_value [OF b]
    by (auto simp: yy_next_def split: sum.splits)
qed

lemma ref_step:
  assumes "yy_reads n" "0 < char_value sc c" "yy_next sc n c = Inl m"
  shows "ref_rest n = Some (to_lower c # w) \<longleftrightarrow> ref_rest m = Some w"
  using assms(1)
proof (cases rule: yy_reads_node)
  case (1 cs d)
  note ok = yy_ok_node [OF 1]
  obtain xs k where p: "find (\<lambda>(xs, _). c \<in> set xs) cs = Some (xs, k)" "yy_label k = Inl m"
    using assms(3) 1 ok by (auto simp: yy_next_def split: option.splits)
  then have k: "(xs, k) \<in> set cs" "c \<in> set xs" by (auto simp: find_Some_iff) (metis nth_mem)
  have "c \<noteq> CHR 0x00" using assms(2) by (auto simp: char_value_def)
  define l where "l = to_lower (hd xs)"
  have l: "yy_label k = Inl k" "xs \<noteq> [CHR 0x00]" "to_lower l = l" "xs = [l] \<and> to_upper l = l \<or> xs = [to_upper l, l]"
    using ok k \<open>c \<noteq> CHR 0x00\<close> by (auto simp: list_all_iff Let_def l_def)
  then have "to_lower c = to_lower (hd xs)" using case_letter [OF l(3,4)] k(2) by (simp add: l_def)
  with l have "ref_rest m = (case ref_rest n of Some (k # w) \<Rightarrow> if k = to_lower c then Some w else None | _ \<Rightarrow> None)"
    using ref_ok_case [OF ref_ok_node [OF 1] k(1)] p(2) by (simp cong: option.case_cong list.case_cong)
  then show ?thesis by (auto split: option.splits list.splits)
next
  case (2 l t)
  then show ?thesis using assms(2,3) yy_ok_node [OF 2] by (simp add: yy_next_def)
next
  case (3 l k)
  then show ?thesis using assms(2,3) yy_ok_node [OF 3] by (auto simp: yy_next_def split: if_splits)
qed

lemma yy_run_high:
  "yy_reads n \<Longrightarrow> list_all (\<lambda>c. 0 < char_value True c) s \<Longrightarrow> 128 \<le> (of_char b :: int) \<Longrightarrow>
   yy_run True n (s @ b # rest) = Inr (if ref_rest n = Some (map to_lower s) then INVALID
     else case map_of (yy_names n) (map to_lower s) of Some t \<Rightarrow> t | None \<Rightarrow> INVALID)"
proof (induction s arbitrary: n)
  case Nil
  then show ?case by (simp add: high_end)
next
  case (Cons c s)
  then show ?case using names_step [of n True c] ref_step [of n True c]
    by (cases "yy_next True n c") auto
qed

lemma yy_start: "yy_reads 0" "yy_names 0 = type_names"
  by (simp_all add: yy_reads_def yy_nodes_def yy_label_def yy_names_def)

section \<open>Data types\<close>

text \<open>
  \<^verbatim>\<open>DTData\<close>. The handle of a data type may be null; \<open>CIMDataType option\<close> is a handle where that matters, and
  \<open>dt_bool\<close> is its conversion to a truth value.
\<close>

record CIMDataType =
  dt_type :: Type
  dt_numberOfElements :: "32 word"
  dt_sizeRange :: "32 word"
  dt_reference :: string

definition SIZE_SINGLE :: "32 word" where "SIZE_SINGLE = 0"
definition SIZE_UNLIMITED :: "32 word" where "SIZE_UNLIMITED = 1"
definition SIZE_LIMITED :: "32 word" where "SIZE_LIMITED = 2"

lemmas size_simps [simp] = SIZE_SINGLE_def SIZE_UNLIMITED_def SIZE_LIMITED_def

definition dt_bool :: "CIMDataType option \<Rightarrow> bool" where
  "dt_bool dt = (case dt of None \<Rightarrow> False | Some d \<Rightarrow> dt_type d \<noteq> CIMNULL \<and> dt_type d \<noteq> INVALID)"

definition CIMDataType_default :: CIMDataType where
  "CIMDataType_default = \<lparr>dt_type = CIMNULL, dt_numberOfElements = 0, dt_sizeRange = 0, dt_reference = []\<rparr>"

definition CIMDataType_of :: "Type \<Rightarrow> CIMDataType result" where
  "CIMDataType_of type = (if \<not> valid_Type type then Inl AssertionException
     else Inr \<lparr>dt_type = type, dt_numberOfElements = 1, dt_sizeRange = SIZE_SINGLE, dt_reference = []\<rparr>)"

text \<open>The size is an \<^verbatim>\<open>Int32\<close>: a size below one means that the array is not limited.\<close>

definition set_array_size :: "32 word \<Rightarrow> CIMDataType \<Rightarrow> CIMDataType" where
  "set_array_size sz d =
     (let n = if sint sz < 1 then - 1 else sz
      in d\<lparr>dt_numberOfElements := n, dt_sizeRange := if 1 \<le> sint n then SIZE_LIMITED else SIZE_UNLIMITED\<rparr>)"

definition CIMDataType_sized :: "Type \<Rightarrow> 32 word \<Rightarrow> CIMDataType result" where
  "CIMDataType_sized type sz = (if \<not> valid_Type type then Inl AssertionException
     else Inr (set_array_size sz (CIMDataType_default\<lparr>dt_type := type\<rparr>)))"

definition CIMDataType_ref :: "string \<Rightarrow> CIMDataType" where
  "CIMDataType_ref refClassName =
     \<lparr>dt_type = REFERENCE, dt_numberOfElements = 1, dt_sizeRange = SIZE_SINGLE, dt_reference = refClassName\<rparr>"

definition isArrayType :: "CIMDataType \<Rightarrow> bool" where
  "isArrayType d \<longleftrightarrow> dt_sizeRange d \<noteq> SIZE_SINGLE"

definition isReferenceType :: "CIMDataType \<Rightarrow> bool" where
  "isReferenceType d \<longleftrightarrow> dt_type d = REFERENCE"

definition isEmbeddedObjectType :: "CIMDataType \<Rightarrow> bool" where
  "isEmbeddedObjectType d \<longleftrightarrow> dt_type d = EMBEDDEDINSTANCE \<or> dt_type d = EMBEDDEDCLASS"

definition setToArrayType :: "32 word \<Rightarrow> CIMDataType \<Rightarrow> CIMDataType" where
  "setToArrayType sz d = set_array_size sz d"

text \<open>
  \<^verbatim>\<open>syncWithValue\<close> looks at the type of the value and at whether it is an array; \<open>None\<close> is a null value. The
  result tells whether the data type was changed.
\<close>

definition syncWithValue :: "(Type \<times> bool) option \<Rightarrow> CIMDataType option \<Rightarrow> bool \<times> CIMDataType option" where
  "syncWithValue value dt =
     (if value = None \<and> \<not> dt_bool dt then (False, dt)
      else
        let d = (case dt of None \<Rightarrow> CIMDataType_default | Some d \<Rightarrow> d)
        in case value of
             None \<Rightarrow> (True, Some (d\<lparr>dt_type := CIMNULL, dt_numberOfElements := 0, dt_sizeRange := SIZE_SINGLE\<rparr>))
           | Some (t, isArray) \<Rightarrow>
               if dt_type d \<noteq> t \<or> isArrayType d \<noteq> isArray
               then (True, Some (d\<lparr>dt_type := t, dt_sizeRange := if isArray then SIZE_UNLIMITED else SIZE_SINGLE,
                                    dt_numberOfElements := if isArray then - 1 else 1\<rparr>))
               else (False, Some d))"

definition dt_equals :: "CIMDataType \<Rightarrow> CIMDataType \<Rightarrow> bool" where
  "dt_equals x y \<longleftrightarrow> dt_type x = dt_type y \<and> dt_sizeRange x = dt_sizeRange y"

definition dt_toString :: "CIMDataType \<Rightarrow> string" where
  "dt_toString d = Type_toString (dt_type d)"

definition dt_toMOF :: "CIMDataType \<Rightarrow> string" where
  "dt_toMOF d = (if dt_type d = REFERENCE then dt_reference d @ '' REF'' else dt_toString d)"

text \<open>The text of an \<^verbatim>\<open>Int32\<close> is made by the library: the parameter \<open>num\<close>.\<close>

definition getArrayMOF :: "(32 word \<Rightarrow> string) \<Rightarrow> CIMDataType \<Rightarrow> string" where
  "getArrayMOF num d =
     (if \<not> isArrayType d then [] else if dt_sizeRange d = SIZE_UNLIMITED then ''[]''
      else ''['' @ num (dt_numberOfElements d) @ '']'')"

definition getDataType :: "bool \<Rightarrow> string \<Rightarrow> CIMDataType result" where
  "getDataType sc strType =
     (if strType = [] then Inr CIMDataType_default
      else bind_r (strToSimpleType sc strType) (\<lambda>type.
        if type \<noteq> INVALID then CIMDataType_of type else CIMDataType_of CIMNULL))"

definition write_CIMDataType :: "blocxx_io \<Rightarrow> CIMDataType \<Rightarrow> byte list" where
  "write_CIMDataType io d = writeSig (CHR ''D'') @ writeLen (Type_num (dt_type d)) @ writeLen (dt_numberOfElements d) @
     writeLen (dt_sizeRange d) @ wr_String io (dt_reference d)"

definition read_CIMDataType :: "blocxx_io \<Rightarrow> CIMDataType reader" where
  "read_CIMDataType io = rd_bind (readSig (CHR ''D'')) (\<lambda>_. rd_bind readLen (\<lambda>type. rd_bind readLen (\<lambda>n.
     rd_bind readLen (\<lambda>sizeRange. rd_bind (rd_String io) (\<lambda>ref.
       rd_return \<lparr>dt_type = Type_cast type, dt_numberOfElements = n, dt_sizeRange = sizeRange, dt_reference = ref\<rparr>)))))"

definition dt_ok :: "CIMDataType \<Rightarrow> bool" where
  "dt_ok d \<longleftrightarrow> wf_Type (dt_type d) \<and> str_ok (dt_reference d)"

sublocale blocxx_streams \<subseteq> DataType: signed_codec "write_CIMDataType io" "read_CIMDataType io" dt_ok "[of_char (CHR ''D'')]"
  by unfold_locales
    (simp_all add: write_CIMDataType_def read_CIMDataType_def codec_simps dt_ok_def Type_cast_num)

lemma shrinks_CIMDataType [shrink_intros]: "io_shrinks io \<Longrightarrow> shrinks (read_CIMDataType io)"
  unfolding read_CIMDataType_def by (intro shrink_intros)

section \<open>Properties of the type names\<close>

text \<open>
  C5: the hand-edited automaton of \<^verbatim>\<open>strToSimpleType\<close> gives the type of the documented table for the name in
  any mixture of upper and lower case, and \<open>INVALID\<close> for every other string. The characters have to
  be greater than zero as values of \<^verbatim>\<open>char\<close>.
\<close>

theorem strToSimpleType_correct:
  assumes "list_all (\<lambda>c. 0 < char_value sc c) strType"
  shows "strToSimpleType sc strType =
           Inr (case map_of type_names (map to_lower strType) of Some t \<Rightarrow> t | None \<Rightarrow> INVALID)"
  unfolding strToSimpleType_def using yy_run_names [OF yy_start(1) assms] by (simp only: yy_start(2))

theorem strToSimpleType_correct_witness:
  "strToSimpleType True ''DateTime'' = Inr DATETIME \<and> strToSimpleType True ''uint128'' = Inr INVALID"
  using strToSimpleType_correct [of True "''DateTime''"] strToSimpleType_correct [of True "''uint128''"]
  by (simp add: char_value_def type_names_def to_lower_def char_of_eq_iff)

text \<open>
  C6: the automaton never reads beyond the null that ends the string: it returns a type for every string,
  whatever its bytes and whether or not \<^verbatim>\<open>char\<close> is signed.
\<close>

theorem strToSimpleType_in_bounds: "\<exists>t. strToSimpleType sc strType = Inr t"
  unfolding strToSimpleType_def by (rule yy_run_returns [OF yy_start(1)])

text \<open>
  C21: the name \<^verbatim>\<open>toString\<close> gives to a valid type is read back as that type, with three exceptions: the name of
  an embedded class or instance is that of a string and read back as \<^verbatim>\<open>STRING\<close>, and \<^verbatim>\<open>CIMNULL\<close> has no name, the
  text of the error that \<^verbatim>\<open>toString\<close> gives for it is read back as \<^verbatim>\<open>INVALID\<close>.
\<close>

theorem type_name_roundtrip:
  assumes "valid_Type t"
  shows "strToSimpleType sc (Type_toString t) =
     Inr (if t = EMBEDDEDCLASS \<or> t = EMBEDDEDINSTANCE then STRING else if t = CIMNULL then INVALID else t)"
proof -
  have low: "0 < char_value sc c" if "0 < (of_char c :: int)" "(of_char c :: int) < 128" for c
    using that by (simp add: char_value_def)
  have "list_all (\<lambda>c. 0 < char_value sc c) (Type_toString t)"
    using assms by (cases t) (simp_all add: low)
  from yy_run_names [OF yy_start(1) this] assms show ?thesis
    by (cases t) (simp_all add: strToSimpleType_def yy_start type_names_def to_lower_def char_of_eq_iff)
qed

theorem type_name_roundtrip_witness: "strToSimpleType True ''sint64'' = Inr SINT64"
  using type_name_roundtrip [of SINT64 True] by simp

text \<open>
  C28: where \<^verbatim>\<open>char\<close> is signed, a byte above 127 ends a type name like the terminating null: a name of the
  table in any mixture of case, followed by such a byte and anything else, is accepted as the type.
  The short name \<open>ref\<close> is the exception, its label tests for the null itself.
\<close>

theorem strToSimpleType_high_byte:
  assumes "list_all (\<lambda>c. 0 < char_value True c) s" "128 \<le> (of_char b :: int)"
  shows "strToSimpleType True (s @ b # rest) =
     Inr (if map to_lower s = ''ref'' then INVALID
          else case map_of type_names (map to_lower s) of Some t \<Rightarrow> t | None \<Rightarrow> INVALID)"
  using yy_run_high [OF yy_start(1) assms, of rest] unfolding strToSimpleType_def yy_start(2)
  by (simp add: ref_rest_def eq_commute)

theorem strToSimpleType_high_byte_witness:
  "strToSimpleType True (''UInt16'' @ CHR 0xE9 # ''x'') = Inr UINT16"
  using strToSimpleType_high_byte [of "''UInt16''" "CHR 0xE9" "''x''"]
  by (simp add: char_value_def type_names_def to_lower_def char_of_eq_iff)

end
