(* ===== verification/CIM_Text.thy ===== *)
theory CIM_Text
  imports WBEM_Prelude
begin

text \<open>
  What the modelled code uses of the C library for text: decimal numbers as \<^verbatim>\<open>sprintf\<close> writes them and
  \<^verbatim>\<open>atoi\<close> reads them, and the arrays of characters that hold null-terminated strings.
\<close>

section \<open>Decimal numbers\<close>

definition digit :: "nat \<Rightarrow> char" where
  "digit n = char_of (48 + n)"

definition is_digit :: "char \<Rightarrow> bool" where
  "is_digit c \<longleftrightarrow> 48 \<le> (of_char c :: nat) \<and> (of_char c :: nat) \<le> 57"

definition digit_value :: "char \<Rightarrow> nat" where
  "digit_value c = of_char c - 48"

text \<open>\<open>\<^verbatim>\<open>%u\<close>\<close>, and \<open>\<^verbatim>\<open>%0wu\<close>\<close> and \<open>\<^verbatim>\<open>%+0wd\<close>\<close> with the width \<open>w\<close>.\<close>

fun dec :: "nat \<Rightarrow> string" where
  "dec n = (if n < 10 then [digit n] else dec (n div 10) @ [digit (n mod 10)])"

declare dec.simps [simp del]

definition zero_pad :: "nat \<Rightarrow> string \<Rightarrow> string" where
  "zero_pad w s = replicate (w - length s) (CHR ''0'') @ s"

definition fmt_u :: "nat \<Rightarrow> nat \<Rightarrow> string" where
  "fmt_u w n = zero_pad w (dec n)"

definition fmt_d_sign :: "nat \<Rightarrow> int \<Rightarrow> string" where
  "fmt_d_sign w i = (if i < 0 then CHR ''-'' else CHR ''+'') # zero_pad (w - 1) (dec (nat \<bar>i\<bar>))"

text \<open>
  \<^verbatim>\<open>atoi\<close>: white space, a sign, digits up to the first other character. A number outside the range of \<^verbatim>\<open>int\<close>
  is undefined.
\<close>

definition c_isspace :: "char \<Rightarrow> bool" where
  "c_isspace c \<longleftrightarrow> of_char c = (32 :: nat) \<or> (9 \<le> (of_char c :: nat) \<and> (of_char c :: nat) \<le> 13)"

definition digits_value :: "string \<Rightarrow> nat" where
  "digits_value s = foldl (\<lambda>v c. 10 * v + digit_value c) 0 s"

definition int32 :: "int \<Rightarrow> int result" where
  "int32 i = (if - (2 ^ 31) \<le> i \<and> i < 2 ^ 31 then Inr i else Inl UndefinedBehaviour)"

definition atoi :: "string \<Rightarrow> int result" where
  "atoi s = (let t = dropWhile c_isspace s in
     case t of
       c # u \<Rightarrow> (if c = CHR ''-'' then int32 (- int (digits_value (takeWhile is_digit u)))
                 else if c = CHR ''+'' then int32 (int (digits_value (takeWhile is_digit u)))
                 else int32 (int (digits_value (takeWhile is_digit t))))
     | [] \<Rightarrow> Inr 0)"

section \<open>Facts about decimal numbers\<close>

lemma digit_facts:
  assumes "n < 10"
  shows "is_digit (digit n)" "digit_value (digit n) = n"
  using assms by (simp_all add: digit_def is_digit_def digit_value_def)

lemma is_digit_facts:
  assumes "is_digit c"
  shows "\<not> c_isspace c" "c \<noteq> CHR ''-''" "c \<noteq> CHR ''+''" "c \<noteq> CHR 0x00" "c \<noteq> CHR '':''" "c \<noteq> CHR ''.''"
  using assms by (auto simp: is_digit_def c_isspace_def)

lemma dec_digits: "list_all is_digit (dec n)"
proof (induction n rule: dec.induct)
  case (1 n)
  then show ?case by (subst dec.simps) (simp add: digit_facts)
qed

lemma dec_nonempty [simp]: "dec n \<noteq> []"
  by (subst dec.simps) simp

lemma digits_value_append: "digits_value (s @ [c]) = 10 * digits_value s + digit_value c"
  by (simp add: digits_value_def)

lemma digits_value_dec [simp]: "digits_value (dec n) = n"
proof (induction n rule: dec.induct)
  case (1 n)
  then show ?case
    by (subst dec.simps) (auto simp: digits_value_append digit_facts, simp add: digits_value_def digit_facts)
qed

lemma digits_value_pad [simp]: "digits_value (zero_pad w s) = digits_value s"
proof -
  have "foldl (\<lambda>v c. 10 * v + digit_value c) 0 (replicate k (CHR ''0'')) = 0" for k
    by (induction k) (simp_all add: digit_value_def)
  then show ?thesis by (simp add: digits_value_def zero_pad_def)
qed

lemma length_dec: "0 < w \<Longrightarrow> length (dec n) \<le> w \<longleftrightarrow> n < 10 ^ w"
proof (induction n arbitrary: w rule: dec.induct)
  case (1 n)
  show ?case
  proof (cases "n < 10")
    case True
    have "(10 :: nat) ^ 1 \<le> 10 ^ w" using 1(2) by (intro power_increasing) auto
    with True 1(2) show ?thesis by (subst dec.simps) auto
  next
    case False
    obtain v where w: "w = Suc v" using 1(2) by (cases w) auto
    have "length (dec n) = Suc (length (dec (n div 10)))" using False by (subst dec.simps) simp
    then show ?thesis
    proof (cases "v = 0")
      case True
      with False w \<open>length (dec n) = _\<close> show ?thesis by simp
    next
      case nz: False
      with 1(1) [OF False, of v] w \<open>length (dec n) = _\<close> show ?thesis by auto
    qed
  qed
qed

lemma length_zero_pad [simp]: "length (zero_pad w s) = max w (length s)"
  by (simp add: zero_pad_def)

lemma length_fmt_u: "0 < w \<Longrightarrow> n < 10 ^ w \<Longrightarrow> length (fmt_u w n) = w"
  by (simp add: fmt_u_def length_dec max_absorb1)

lemma zero_pad_digits: "list_all is_digit s \<Longrightarrow> list_all is_digit (zero_pad w s)"
  by (auto simp: zero_pad_def list_all_iff is_digit_def)

lemma fmt_u_digits: "list_all is_digit (fmt_u w n)"
  by (simp add: fmt_u_def zero_pad_digits dec_digits)

lemma digits_no_nul: "list_all is_digit s \<Longrightarrow> CHR 0x00 \<notin> set s"
  by (auto simp: list_all_iff is_digit_def)

lemma length_fmt_d_sign: "1 < w \<Longrightarrow> \<bar>i\<bar> < 10 ^ (w - 1) \<Longrightarrow> length (fmt_d_sign w i) = w"
  using length_dec [of "w - 1" "nat \<bar>i\<bar>"] by (simp add: fmt_d_sign_def max_absorb1 nat_less_iff)

lemma fmt_no_nul: "CHR 0x00 \<notin> set (fmt_u w n)" "CHR 0x00 \<notin> set (fmt_d_sign w i)"
  using digits_no_nul [OF fmt_u_digits, of w n] digits_no_nul [OF fmt_u_digits, of "w - 1" "nat \<bar>i\<bar>"]
  by (simp_all add: fmt_u_def fmt_d_sign_def)

lemma takeWhile_digits: "list_all is_digit s \<Longrightarrow> takeWhile is_digit s = s"
  by (induction s) auto

text \<open>\<^verbatim>\<open>atoi\<close> reads back what \<^verbatim>\<open>sprintf\<close> wrote.\<close>

lemma atoi_digits: "list_all is_digit s \<Longrightarrow> atoi s = (if s = [] then Inr 0 else int32 (int (digits_value s)))"
  by (cases s) (auto simp: atoi_def Let_def is_digit_facts takeWhile_digits)

lemma zero_pad_dec [simp]: "zero_pad w (dec n) \<noteq> []"
  by (simp add: zero_pad_def)

lemma takeWhile_pad_dec: "takeWhile is_digit (zero_pad w (dec n)) = zero_pad w (dec n)"
  by (intro takeWhile_digits zero_pad_digits dec_digits)

lemma atoi_fmt_u: "n < 2 ^ 31 \<Longrightarrow> atoi (fmt_u w n) = Inr (int n)"
  by (simp add: atoi_digits [OF fmt_u_digits] int32_def) (simp add: fmt_u_def)

lemma atoi_fmt_d_sign: "\<bar>i\<bar> < 2 ^ 31 \<Longrightarrow> atoi (fmt_d_sign w i) = Inr i"
  by (auto simp: atoi_def fmt_d_sign_def Let_def c_isspace_def int32_def takeWhile_pad_dec
      simp del: takeWhile_eq_all_conv)

section \<open>Arrays that hold a string\<close>

text \<open>\<open>cstr bfr i\<close> is the string that starts at index \<open>i\<close> of the array \<open>bfr\<close>, and \<open>strncpy n s\<close> the array \<^verbatim>\<open>strncpy\<close> fills.\<close>

definition cstr :: "string \<Rightarrow> nat \<Rightarrow> string" where
  "cstr bfr i = takeWhile (\<lambda>c. c \<noteq> CHR 0x00) (drop i bfr)"

definition strncpy :: "nat \<Rightarrow> string \<Rightarrow> string" where
  "strncpy n s = (let t = take n (takeWhile (\<lambda>c. c \<noteq> CHR 0x00) s) in t @ replicate (n - length t) (CHR 0x00))"

end
