(* ===== verification/CIM_DateTime.thy ===== *)
theory CIM_DateTime
  imports CIM_Text CIM_Stream
begin

text \<open>
  \<^verbatim>\<open>cim/OW_CIMDateTime.cpp\<close>: dates and intervals, their text form, the construction of an interval from a number
  of microseconds, their order and their stream form. The fields have the widths of the C++ structure.
\<close>

section \<open>The data\<close>

record CIMDateTime =
  m_year :: "16 word"
  m_month :: "8 word"
  m_days :: "32 word"
  m_hours :: "8 word"
  m_minutes :: "8 word"
  m_seconds :: "8 word"
  m_microSeconds :: "32 word"
  m_utc :: "16 word"
  m_isInterval :: "8 word"

definition DateTimeData_new :: CIMDateTime where
  "DateTimeData_new = \<lparr>m_year = 0, m_month = 0, m_days = 0, m_hours = 0, m_minutes = 0, m_seconds = 0,
                       m_microSeconds = 0, m_utc = 0, m_isInterval = 1\<rparr>"

definition isInterval :: "CIMDateTime \<Rightarrow> bool" where
  "isInterval d \<longleftrightarrow> m_isInterval d \<noteq> 0"

definition setInterval :: "bool \<Rightarrow> CIMDateTime \<Rightarrow> CIMDateTime" where
  "setInterval val d = d\<lparr>m_isInterval := if val then 1 else 0\<rparr>"

definition isZero :: "CIMDateTime option \<Rightarrow> bool" where
  "isZero dp = (case dp of None \<Rightarrow> True
     | Some d \<Rightarrow> m_days d = 0 \<and> m_year d = 0 \<and> m_month d = 0 \<and> m_hours d = 0 \<and> m_minutes d = 0 \<and> m_seconds d = 0 \<and>
                 m_microSeconds d = 0)"

definition setYear :: "16 word \<Rightarrow> CIMDateTime \<Rightarrow> CIMDateTime" where "setYear arg d = d\<lparr>m_year := arg\<rparr>"
definition setMonth :: "8 word \<Rightarrow> CIMDateTime \<Rightarrow> CIMDateTime" where "setMonth arg d = d\<lparr>m_month := arg\<rparr>"
definition setDays :: "32 word \<Rightarrow> CIMDateTime \<Rightarrow> CIMDateTime" where "setDays arg d = d\<lparr>m_days := arg\<rparr>"
definition setHours :: "8 word \<Rightarrow> CIMDateTime \<Rightarrow> CIMDateTime" where "setHours arg d = d\<lparr>m_hours := arg\<rparr>"
definition setMinutes :: "8 word \<Rightarrow> CIMDateTime \<Rightarrow> CIMDateTime" where "setMinutes arg d = d\<lparr>m_minutes := arg\<rparr>"
definition setSeconds :: "8 word \<Rightarrow> CIMDateTime \<Rightarrow> CIMDateTime" where "setSeconds arg d = d\<lparr>m_seconds := arg\<rparr>"
definition setMicroSeconds :: "32 word \<Rightarrow> CIMDateTime \<Rightarrow> CIMDateTime" where
  "setMicroSeconds arg d = d\<lparr>m_microSeconds := arg\<rparr>"
definition setUtc :: "16 word \<Rightarrow> CIMDateTime \<Rightarrow> CIMDateTime" where "setUtc arg d = d\<lparr>m_utc := arg\<rparr>"

definition dateTime_equal :: "CIMDateTime \<Rightarrow> CIMDateTime \<Rightarrow> bool" where
  "dateTime_equal x y \<longleftrightarrow> m_year x = m_year y \<and> m_month x = m_month y \<and> m_days x = m_days y \<and> m_hours x = m_hours y \<and>
     m_minutes x = m_minutes y \<and> m_seconds x = m_seconds y \<and> m_microSeconds x = m_microSeconds y \<and>
     m_utc x = m_utc y \<and> m_isInterval x = m_isInterval y"

lemma dateTime_equal_iff [simp]: "dateTime_equal x y \<longleftrightarrow> x = y"
  by (cases x; cases y) (simp add: dateTime_equal_def)

section \<open>The construction from microseconds\<close>

text \<open>
  The product \<^verbatim>\<open>secs * 1000000\<close> and the other products are computed with 32 bits; the subtraction from the
  parameter has 64 bits, and the result is cut to the width of the field.
\<close>

definition CIMDateTime_micro :: "64 word \<Rightarrow> CIMDateTime" where
  "CIMDateTime_micro microSeconds =
     (let secs = ucast (microSeconds div 1000000) :: 32 word;
          microSeconds = microSeconds - ucast (secs * 1000000);
          minutes = secs div 60;
          secs = secs - minutes * 60;
          hours = minutes div 60;
          minutes = minutes - hours * 60;
          days = hours div 24;
          hours = hours - days * 24
      in DateTimeData_new\<lparr>m_isInterval := 1, m_days := days, m_hours := ucast hours, m_minutes := ucast minutes,
           m_seconds := ucast secs, m_microSeconds := ucast microSeconds\<rparr>)"

section \<open>The text form\<close>

text \<open>\<^verbatim>\<open>sprintf\<close> writes to an array of 30 characters and a terminating null.\<close>

definition dateTime_text :: "CIMDateTime \<Rightarrow> string" where
  "dateTime_text d =
     (if isInterval d
      then fmt_u 8 (unat (m_days d)) @ fmt_u 2 (unat (m_hours d)) @ fmt_u 2 (unat (m_minutes d)) @
           fmt_u 2 (unat (m_seconds d)) @ ''.'' @ fmt_u 6 (unat (m_microSeconds d)) @ '':000''
      else fmt_u 4 (unat (m_year d)) @ fmt_u 2 (unat (m_month d)) @ fmt_u 2 (unat (m_days d)) @
           fmt_u 2 (unat (m_hours d)) @ fmt_u 2 (unat (m_minutes d)) @ fmt_u 2 (unat (m_seconds d)) @ ''.'' @
           fmt_u 6 (unat (m_microSeconds d)) @ fmt_d_sign 4 (sint (m_utc d)))"

definition dateTime_toString :: "CIMDateTime \<Rightarrow> string result" where
  "dateTime_toString d = (if length (dateTime_text d) < 30 then Inr (dateTime_text d) else Inl UndefinedBehaviour)"

text \<open>
  \<^verbatim>\<open>fillDateTimeData\<close>: the fields are cut out of a copy of the string from the right to the left, and a null is
  put behind each in turn. The values of \<^verbatim>\<open>atoi\<close> are cut to the width of the fields.
\<close>

definition fill_time :: "string \<Rightarrow> CIMDateTime \<Rightarrow> (string \<times> CIMDateTime) result" where
  "fill_time bfr d =
     (let bfr = bfr[21 := CHR 0x00] in
      bind_r (atoi (cstr bfr 15)) (\<lambda>us.
      let bfr = bfr[14 := CHR 0x00] in
      bind_r (atoi (cstr bfr 12)) (\<lambda>s.
      let bfr = bfr[12 := CHR 0x00] in
      bind_r (atoi (cstr bfr 10)) (\<lambda>m.
      let bfr = bfr[10 := CHR 0x00] in
      bind_r (atoi (cstr bfr 8)) (\<lambda>h.
      let bfr = bfr[8 := CHR 0x00] in
      Inr (bfr, d\<lparr>m_microSeconds := of_int us, m_seconds := of_int s, m_minutes := of_int m, m_hours := of_int h\<rparr>))))))"

definition fillDateTimeData :: "CIMDateTime \<Rightarrow> string \<Rightarrow> CIMDateTime result" where
  "fillDateTimeData d str =
     (if takeWhile (\<lambda>c. c \<noteq> CHR 0x00) str = [] then Inr d
      else
        let bfr = (strncpy 35 str)[34 := CHR 0x00] in
        if bfr ! 21 = CHR '':'' then
          bind_r (fill_time bfr (d\<lparr>m_isInterval := 1\<rparr>)) (\<lambda>(bfr, d).
          bind_r (atoi (cstr bfr 0)) (\<lambda>days. Inr (d\<lparr>m_days := of_int days\<rparr>)))
        else if bfr ! 21 = CHR ''+'' \<or> bfr ! 21 = CHR ''-'' then
          bind_r (atoi (cstr bfr 21)) (\<lambda>utc.
          bind_r (fill_time bfr (d\<lparr>m_isInterval := 0, m_utc := of_int utc\<rparr>)) (\<lambda>(bfr, d).
          bind_r (atoi (cstr bfr 6)) (\<lambda>days.
          let bfr = bfr[6 := CHR 0x00] in
          bind_r (atoi (cstr bfr 4)) (\<lambda>month.
          let bfr = bfr[4 := CHR 0x00] in
          bind_r (atoi (cstr bfr 0)) (\<lambda>year.
            Inr (d\<lparr>m_days := of_int days, m_month := of_int month, m_year := of_int year\<rparr>))))))
        else Inl CIMDateTimeException)"

definition CIMDateTime_of_String :: "string \<Rightarrow> CIMDateTime result" where
  "CIMDateTime_of_String arg = fillDateTimeData DateTimeData_new arg"

section \<open>The order\<close>

definition isLeap :: "16 word \<Rightarrow> bool" where
  "isLeap year \<longleftrightarrow> unat year mod 4 = 0 \<and> (unat year mod 100 \<noteq> 0 \<or> unat year mod 400 = 0)"

definition monthYearDay :: "bool \<Rightarrow> nat list" where
  "monthYearDay leap = (if \<not> leap then [0, 31, 59, 90, 120, 151, 181, 212, 243, 273, 304, 334, 365]
                        else [0, 31, 60, 91, 121, 152, 182, 213, 244, 274, 305, 335, 366])"

text \<open>
  \<^verbatim>\<open>getMagnitude\<close>. The day of the year is computed in \<^verbatim>\<open>UInt32\<close> and stored in an \<^verbatim>\<open>int\<close>; the later products
  and sums are of type \<^verbatim>\<open>int\<close>, where an overflow is undefined.
\<close>

definition getMagnitude :: "CIMDateTime \<Rightarrow> int result" where
  "getMagnitude dt =
     (if isInterval dt then Inl AssertionException
      else if m_month dt > 12 then Inr 0
      else bind_r (arr_get (monthYearDay (isLeap (m_year dt))) (uint (m_month dt) - 1)) (\<lambda>before.
        let dayOfYear = sint (of_nat before + m_days dt - 1 :: 32 word) in
        bind_r (int32 (366 * (uint (m_year dt) - 1970) + dayOfYear)) (\<lambda>days.
        bind_r (int32 (24 * days)) (\<lambda>_.
        bind_r (int32 (uint (m_hours dt) + 24 * days)) (\<lambda>hours.
          Inr (uint (m_seconds dt) + 60 * (uint (m_minutes dt) + sint (m_utc dt)) + 3600 * hours))))))"

text \<open>
  \<^verbatim>\<open>StrictWeakOrdering\<close> belongs to the blocxx library: the parameter \<open>swo\<close>. It is documented to compare its
  arguments in pairs, from the left to the right.
\<close>

definition dateTime_less :: "((int \<times> int) list \<Rightarrow> bool) \<Rightarrow> CIMDateTime \<Rightarrow> CIMDateTime \<Rightarrow> bool result" where
  "dateTime_less swo x y =
     (if isInterval x \<noteq> isInterval y then Inr (isInterval x)
      else if isInterval x then
        Inr (swo
          [(uint (m_days x), uint (m_days y)), (uint (m_hours x), uint (m_hours y)), (uint (m_minutes x), uint (m_minutes y)),
           (uint (m_seconds x), uint (m_seconds y)), (uint (m_microSeconds x), uint (m_microSeconds y))])
      else bind_r (getMagnitude x) (\<lambda>mx. bind_r (getMagnitude y) (\<lambda>my.
        Inr (swo [(mx, my), (uint (m_microSeconds x), uint (m_microSeconds y))]))))"

fun pairs_less :: "(int \<times> int) list \<Rightarrow> bool" where
  "pairs_less [] = False"
| "pairs_less ((x, y) # rest) = (x < y \<or> (\<not> y < x \<and> pairs_less rest))"

section \<open>The stream form\<close>

definition write_CIMDateTime :: "CIMDateTime \<Rightarrow> byte list" where
  "write_CIMDateTime d = write_UInt16 (m_year d) @ write_UInt8 (m_month d) @ write_UInt32 (m_days d) @
     write_UInt8 (m_hours d) @ write_UInt8 (m_minutes d) @ write_UInt8 (m_seconds d) @ write_UInt32 (m_microSeconds d) @
     write_UInt16 (m_utc d) @ write_UInt8 (m_isInterval d)"

definition read_CIMDateTime :: "CIMDateTime reader" where
  "read_CIMDateTime =
     rd_bind read_UInt16 (\<lambda>year. rd_bind read_UInt8 (\<lambda>month. rd_bind read_UInt32 (\<lambda>days. rd_bind read_UInt8 (\<lambda>hours.
     rd_bind read_UInt8 (\<lambda>minutes. rd_bind read_UInt8 (\<lambda>seconds. rd_bind read_UInt32 (\<lambda>us. rd_bind read_UInt16 (\<lambda>utc.
     rd_bind read_UInt8 (\<lambda>isInterval.
       rd_return \<lparr>m_year = year, m_month = month, m_days = days, m_hours = hours, m_minutes = minutes,
         m_seconds = seconds, m_microSeconds = us, m_utc = utc, m_isInterval = isInterval\<rparr>)))))))))"

interpretation DateTime: codec write_CIMDateTime read_CIMDateTime "\<lambda>_. True"
  by unfold_locales (simp add: write_CIMDateTime_def read_CIMDateTime_def codec_simps)

lemma shrinks_CIMDateTime [shrink_intros]: "shrinks read_CIMDateTime"
  unfolding read_CIMDateTime_def by (intro shrink_intros)

section \<open>Microseconds\<close>

lemma ucast_minus_ucast: "(ucast (a - ucast b :: 64 word) :: 32 word) = ucast a - b"
proof transfer
  fix a b :: int
  have "a mod 2 ^ 64 mod 2 ^ 32 = a mod 2 ^ 32" by (rule mod_mod_cancel) simp
  then have "(a mod 2 ^ 64 - b) mod 2 ^ 32 = (a - b) mod 2 ^ 32" by (metis mod_diff_left_eq)
  then show "take_bit LENGTH(32) (take_bit LENGTH(64) (a - take_bit LENGTH(32) b)) =
             take_bit LENGTH(32) (take_bit LENGTH(64) a - b)"
    by (simp add: take_bit_eq_mod mod_mod_cancel mod_diff_right_eq)
qed

text \<open>The fields of an interval as a number of microseconds.\<close>

definition total_micro :: "CIMDateTime \<Rightarrow> nat" where
  "total_micro d = (((unat (m_days d) * 24 + unat (m_hours d)) * 60 + unat (m_minutes d)) * 60 + unat (m_seconds d)) * 10 ^ 6 +
                   unat (m_microSeconds d)"

definition time_in_range :: "CIMDateTime \<Rightarrow> bool" where
  "time_in_range d \<longleftrightarrow> unat (m_hours d) < 24 \<and> unat (m_minutes d) < 60 \<and> unat (m_seconds d) < 60 \<and> unat (m_microSeconds d) < 10 ^ 6"

lemma CIMDateTime_micro_fields:
  fixes us :: "64 word"
  assumes "unat us < 2 ^ 32 * 10 ^ 6"
  defines "q \<equiv> unat us div 10 ^ 6" and "d \<equiv> CIMDateTime_micro us"
  shows "unat (m_days d) = q div 60 div 60 div 24" "unat (m_hours d) = q div 60 div 60 mod 24"
    "unat (m_minutes d) = q div 60 mod 60" "unat (m_seconds d) = q mod 60" "unat (m_microSeconds d) = unat us mod 10 ^ 6"
proof -
  have q: "q < 2 ^ 32" using assms(1) by (simp add: q_def less_mult_imp_div_less)
  define secs where "secs = (ucast (us div 1000000) :: 32 word)"
  have secs: "unat secs = q" unfolding secs_def q_def
    using q by (simp add: unsigned_ucast_eq unat_div q_def take_bit_nat_eq_self)
  have mins: "unat (secs div 60) = q div 60" and hrs: "unat (secs div 60 div 60) = q div 60 div 60"
    by (simp_all add: unat_div_distrib secs)
  have cast: "unat (ucast (w mod n) :: 8 word) = unat w mod unat n" if "0 < unat n" "unat n < 256" for w n :: "32 word"
  proof -
    have "unat w mod unat n < unat n" using that(1) by (rule mod_less_divisor)
    then have "unat w mod unat n < 2 ^ 8" using that(2) by simp
    then show ?thesis by (simp add: unsigned_ucast_eq unat_mod_distrib take_bit_nat_eq_self)
  qed
  note unfold = d_def CIMDateTime_micro_def Let_def minus_div_mult_eq_mod
  show "unat (m_days d) = q div 60 div 60 div 24"
    by (simp add: unfold unat_div_distrib secs flip: secs_def)
  show "unat (m_hours d) = q div 60 div 60 mod 24" "unat (m_minutes d) = q div 60 mod 60" "unat (m_seconds d) = q mod 60"
    by (simp_all add: unfold cast hrs mins secs flip: secs_def)
  have "secs = of_nat (unat secs)" by (simp add: of_nat_unat)
  then have "secs = of_nat q" by (simp only: secs)
  moreover have "(ucast us :: 32 word) = of_nat (unat us)" by (simp add: of_nat_unat)
  moreover have "q * 10 ^ 6 \<le> unat us" by (simp add: q_def)
  ultimately have "ucast us - secs * 1000000 = (of_nat (unat us - q * 10 ^ 6) :: 32 word)"
    by (simp add: of_nat_diff)
  moreover have "unat us - q * 10 ^ 6 = unat us mod 10 ^ 6" by (simp add: q_def minus_div_mult_eq_mod)
  moreover have "unat us mod 10 ^ 6 < 2 ^ 32" by (rule less_trans [OF mod_less_divisor]) simp_all
  ultimately show "unat (m_microSeconds d) = unat us mod 10 ^ 6"
    by (simp add: unfold ucast_minus_ucast unat_of_nat_32 flip: secs_def)
qed

section \<open>The text form and back\<close>

text \<open>The ranges of the documented forms: every field fits the digits it has in the text.\<close>

definition text_in_range :: "CIMDateTime \<Rightarrow> bool" where
  "text_in_range d \<longleftrightarrow>
     unat (m_hours d) < 100 \<and> unat (m_minutes d) < 100 \<and> unat (m_seconds d) < 100 \<and> unat (m_microSeconds d) < 10 ^ 6 \<and>
     (if isInterval d then unat (m_days d) < 10 ^ 8 \<and> m_isInterval d = 1 \<and> m_year d = 0 \<and> m_month d = 0 \<and> m_utc d = 0
      else unat (m_days d) < 100 \<and> unat (m_year d) < 10 ^ 4 \<and> unat (m_month d) < 100 \<and> \<bar>sint (m_utc d)\<bar> < 1000)"

definition segment :: "nat \<Rightarrow> nat \<Rightarrow> string \<Rightarrow> string" where
  "segment i n s = take n (drop i s)"

lemma cstr_cut:
  assumes "i + n < length bfr" and "CHR 0x00 \<notin> set (segment i n bfr)"
  shows "cstr (bfr[i + n := CHR 0x00]) i = segment i n bfr"
proof -
  have "drop i (bfr[i + n := CHR 0x00]) = segment i n bfr @ CHR 0x00 # drop (Suc n) (drop i bfr)"
    using assms(1) by (simp add: segment_def drop_update_swap upd_conv_take_nth_drop drop_take add.commute)
  then show ?thesis using assms(2) by (simp add: cstr_def takeWhile_append)
qed

lemma segment_update: "i + n \<le> k \<Longrightarrow> segment i n (bfr[k := c]) = segment i n bfr"
  by (simp add: segment_def drop_update_swap)

lemma fill_time_segments:
  assumes "length bfr = 35" and "\<And>i n. i + n \<le> 21 \<Longrightarrow> CHR 0x00 \<notin> set (segment i n bfr)"
  shows "fill_time bfr d =
     bind_r (atoi (segment 15 6 bfr)) (\<lambda>us. bind_r (atoi (segment 12 2 bfr)) (\<lambda>s.
     bind_r (atoi (segment 10 2 bfr)) (\<lambda>m. bind_r (atoi (segment 8 2 bfr)) (\<lambda>h.
       Inr (bfr[21 := CHR 0x00, 14 := CHR 0x00, 12 := CHR 0x00, 10 := CHR 0x00, 8 := CHR 0x00],
            d\<lparr>m_microSeconds := of_int us, m_seconds := of_int s, m_minutes := of_int m, m_hours := of_int h\<rparr>)))))"
proof -
  let ?b1 = "bfr[21 := CHR 0x00]" and ?b2 = "bfr[21 := CHR 0x00, 14 := CHR 0x00]"
    and ?b3 = "bfr[21 := CHR 0x00, 14 := CHR 0x00, 12 := CHR 0x00]"
  note nul = assms(2) [of 15 6] assms(2) [of 12 2] assms(2) [of 10 2] assms(2) [of 8 2]
  have "cstr ?b1 15 = segment 15 6 bfr"
    using cstr_cut [of 15 6 bfr] assms(1) nul by simp
  moreover have "cstr (?b1[14 := CHR 0x00]) 12 = segment 12 2 bfr"
    using cstr_cut [of 12 2 ?b1] assms(1) nul by (simp add: segment_update)
  moreover have "cstr (?b2[12 := CHR 0x00]) 10 = segment 10 2 bfr"
    using cstr_cut [of 10 2 ?b2] assms(1) nul by (simp add: segment_update)
  moreover have "cstr (?b3[10 := CHR 0x00]) 8 = segment 8 2 bfr"
    using cstr_cut [of 8 2 ?b3] assms(1) nul by (simp add: segment_update)
  ultimately show ?thesis by (simp add: fill_time_def Let_def)
qed

text \<open>The array after the copy of a text of 25 characters, and what \<^verbatim>\<open>fillDateTimeData\<close> takes from it.\<close>

lemma strncpy_35: "length s = 25 \<Longrightarrow> CHR 0x00 \<notin> set s \<Longrightarrow> (strncpy 35 s)[34 := CHR 0x00] = s @ replicate 10 (CHR 0x00)"
proof -
  assume s: "length s = 25" "CHR 0x00 \<notin> set s"
  then have "takeWhile (\<lambda>c. c \<noteq> CHR 0x00) s = s" by (auto simp: takeWhile_eq_all_conv)
  with s have "strncpy 35 s = s @ replicate 10 (CHR 0x00)"
    by (simp add: strncpy_def Let_def del: takeWhile_eq_all_conv)
  moreover have "(s @ replicate 10 (CHR 0x00)) ! 34 = CHR 0x00" using s by (simp add: nth_append)
  ultimately show ?thesis using list_update_id [of "s @ replicate 10 (CHR 0x00)" 34] by (simp only:)
qed

lemma segment_append: "i + n \<le> length s \<Longrightarrow> segment i n (s @ t) = segment i n s"
  by (simp add: segment_def)

lemma set_segment: "set (segment i n s) \<subseteq> set s"
  unfolding segment_def by (meson order_trans set_drop_subset set_take_subset)

lemma bfr_facts:
  fixes s :: string
  assumes "length s = 25" "CHR 0x00 \<notin> set s"
  defines "bfr \<equiv> s @ replicate 10 (CHR 0x00)"
  shows "length bfr = 35" "bfr ! 21 = s ! 21" "i + n \<le> 25 \<Longrightarrow> segment i n bfr = segment i n s"
    "i + n \<le> 25 \<Longrightarrow> CHR 0x00 \<notin> set (segment i n bfr)" "cstr bfr 21 = segment 21 4 s"
    "takeWhile (\<lambda>c. c \<noteq> CHR 0x00) s = s"
proof -
  show "length bfr = 35" "bfr ! 21 = s ! 21" using assms(1) by (simp_all add: bfr_def nth_append)
  show sl: "i + n \<le> 25 \<Longrightarrow> segment i n bfr = segment i n s" for i n using assms(1) by (simp add: bfr_def segment_append)
  show "i + n \<le> 25 \<Longrightarrow> CHR 0x00 \<notin> set (segment i n bfr)" for i n using sl [of i n] set_segment [of i n s] assms(2) by auto
  have "CHR 0x00 \<notin> set (drop 21 s)" using assms(2) by (meson in_set_dropD)
  then show "cstr bfr 21 = segment 21 4 s"
    using assms(1) by (simp add: cstr_def bfr_def segment_def takeWhile_append takeWhile_eq_all_conv)
  show "takeWhile (\<lambda>c. c \<noteq> CHR 0x00) s = s" using assms(2) by (auto simp: takeWhile_eq_all_conv)
qed

lemma fill_interval:
  assumes "length s = 25" "CHR 0x00 \<notin> set s" "s ! 21 = CHR '':''"
  shows "fillDateTimeData d s =
     bind_r (atoi (segment 15 6 s)) (\<lambda>us. bind_r (atoi (segment 12 2 s)) (\<lambda>sec. bind_r (atoi (segment 10 2 s)) (\<lambda>m.
     bind_r (atoi (segment 8 2 s)) (\<lambda>h. bind_r (atoi (segment 0 8 s)) (\<lambda>days.
       Inr (d\<lparr>m_isInterval := 1, m_microSeconds := of_int us, m_seconds := of_int sec, m_minutes := of_int m,
              m_hours := of_int h, m_days := of_int days\<rparr>))))))"
proof -
  define bfr where "bfr = s @ replicate 10 (CHR 0x00)"
  note f = bfr_facts [OF assms(1,2), folded bfr_def]
  have "cstr (bfr[21 := CHR 0x00, 14 := CHR 0x00, 12 := CHR 0x00, 10 := CHR 0x00, 8 := CHR 0x00]) 0 = segment 0 8 s"
    using cstr_cut [of 0 8 "bfr[21 := CHR 0x00, 14 := CHR 0x00, 12 := CHR 0x00, 10 := CHR 0x00]"] f
    by (simp add: segment_update)
  moreover have "s \<noteq> []" using assms(1) by auto
  ultimately show ?thesis
    using fill_time_segments [of bfr] f assms
    by (simp add: fillDateTimeData_def strncpy_35 Let_def bind_r_assoc del: takeWhile_eq_all_conv flip: bfr_def)
qed

lemma fill_date:
  assumes "length s = 25" "CHR 0x00 \<notin> set s" "s ! 21 = CHR ''+'' \<or> s ! 21 = CHR ''-''"
  shows "fillDateTimeData d s =
     bind_r (atoi (segment 21 4 s)) (\<lambda>utc.
     bind_r (atoi (segment 15 6 s)) (\<lambda>us. bind_r (atoi (segment 12 2 s)) (\<lambda>sec. bind_r (atoi (segment 10 2 s)) (\<lambda>m.
     bind_r (atoi (segment 8 2 s)) (\<lambda>h. bind_r (atoi (segment 6 2 s)) (\<lambda>days. bind_r (atoi (segment 4 2 s)) (\<lambda>month.
     bind_r (atoi (segment 0 4 s)) (\<lambda>year.
       Inr (d\<lparr>m_isInterval := 0, m_utc := of_int utc, m_microSeconds := of_int us, m_seconds := of_int sec,
              m_minutes := of_int m, m_hours := of_int h, m_days := of_int days, m_month := of_int month,
              m_year := of_int year\<rparr>)))))))))"
proof -
  define bfr where "bfr = s @ replicate 10 (CHR 0x00)"
  note f = bfr_facts [OF assms(1,2), folded bfr_def]
  let ?b = "bfr[21 := CHR 0x00, 14 := CHR 0x00, 12 := CHR 0x00, 10 := CHR 0x00]"
  have "cstr (?b[8 := CHR 0x00]) 6 = segment 6 2 s" "cstr (?b[8 := CHR 0x00, 6 := CHR 0x00]) 4 = segment 4 2 s"
    "cstr (?b[8 := CHR 0x00, 6 := CHR 0x00, 4 := CHR 0x00]) 0 = segment 0 4 s"
    using cstr_cut [of 6 2 ?b] cstr_cut [of 4 2 "?b[8 := CHR 0x00]"] cstr_cut [of 0 4 "?b[8 := CHR 0x00, 6 := CHR 0x00]"] f
    by (simp_all add: segment_update)
  moreover have "s \<noteq> []" using assms(1) by auto
  moreover have "s ! 21 \<noteq> CHR '':''" using assms(3) by auto
  ultimately show ?thesis
    using fill_time_segments [of bfr] f assms
    by (simp add: fillDateTimeData_def strncpy_35 Let_def bind_r_assoc del: takeWhile_eq_all_conv flip: bfr_def)
qed

lemma text_length: "text_in_range d \<Longrightarrow> length (dateTime_text d) = 25"
  by (auto simp: text_in_range_def dateTime_text_def length_fmt_u length_fmt_d_sign split: if_splits)

lemma text_no_nul: "CHR 0x00 \<notin> set (dateTime_text d)"
  by (simp add: dateTime_text_def fmt_no_nul)

lemma of_int_unat [simp]: "of_int (int (unat w)) = (w :: 'w::len word)"
  by (simp add: of_nat_unat)

lemma of_int_sint [simp]: "of_int (sint w) = (w :: 'w::len word)"
  by simp

lemma text_roundtrip_interval:
  assumes "text_in_range d" "isInterval d"
  shows "fillDateTimeData DateTimeData_new (dateTime_text d) = Inr d"
proof -
  define A B C D E where
    "A = fmt_u 8 (unat (m_days d))" and "B = fmt_u 2 (unat (m_hours d))" and "C = fmt_u 2 (unat (m_minutes d))" and
    "D = fmt_u 2 (unat (m_seconds d))" and "E = fmt_u 6 (unat (m_microSeconds d))"
  have len: "length A = 8" "length B = 2" "length C = 2" "length D = 2" "length E = 6"
    using assms by (simp_all add: A_def B_def C_def D_def E_def text_in_range_def length_fmt_u)
  have s: "dateTime_text d = A @ B @ C @ D @ ''.'' @ E @ '':000''"
    using assms(2) by (simp add: dateTime_text_def A_def B_def C_def D_def E_def)
  have seg: "segment 15 6 (dateTime_text d) = E" "segment 12 2 (dateTime_text d) = D" "segment 10 2 (dateTime_text d) = C"
    "segment 8 2 (dateTime_text d) = B" "segment 0 8 (dateTime_text d) = A" "dateTime_text d ! 21 = CHR '':''"
    using len unfolding s by (simp_all add: segment_def nth_append)
  have "atoi A = Inr (int (unat (m_days d)))" "atoi B = Inr (int (unat (m_hours d)))" "atoi C = Inr (int (unat (m_minutes d)))"
    "atoi D = Inr (int (unat (m_seconds d)))" "atoi E = Inr (int (unat (m_microSeconds d)))"
    using assms by (simp_all add: A_def B_def C_def D_def E_def text_in_range_def atoi_fmt_u)
  with assms seg show ?thesis
    by (simp add: fill_interval text_length text_no_nul DateTimeData_new_def) (simp add: text_in_range_def)
qed

lemma text_roundtrip_date:
  assumes "text_in_range d" "\<not> isInterval d"
  shows "fillDateTimeData DateTimeData_new (dateTime_text d) = Inr d"
proof -
  define Y M A B C D E U where
    "Y = fmt_u 4 (unat (m_year d))" and "M = fmt_u 2 (unat (m_month d))" and
    "A = fmt_u 2 (unat (m_days d))" and "B = fmt_u 2 (unat (m_hours d))" and "C = fmt_u 2 (unat (m_minutes d))" and
    "D = fmt_u 2 (unat (m_seconds d))" and "E = fmt_u 6 (unat (m_microSeconds d))" and "U = fmt_d_sign 4 (sint (m_utc d))"
  note defs = Y_def M_def A_def B_def C_def D_def E_def U_def
  have len: "length Y = 4" "length M = 2" "length A = 2" "length B = 2" "length C = 2" "length D = 2" "length E = 6" "length U = 4"
    using assms by (simp_all add: defs text_in_range_def length_fmt_u length_fmt_d_sign)
  have s: "dateTime_text d = Y @ M @ A @ B @ C @ D @ ''.'' @ E @ U"
    using assms(2) by (simp add: dateTime_text_def defs)
  have seg: "segment 21 4 (dateTime_text d) = U" "segment 15 6 (dateTime_text d) = E" "segment 12 2 (dateTime_text d) = D"
    "segment 10 2 (dateTime_text d) = C" "segment 8 2 (dateTime_text d) = B" "segment 6 2 (dateTime_text d) = A"
    "segment 4 2 (dateTime_text d) = M" "segment 0 4 (dateTime_text d) = Y"
    "dateTime_text d ! 21 = CHR ''+'' \<or> dateTime_text d ! 21 = CHR ''-''"
    using len unfolding s by (simp_all add: segment_def nth_append) (simp add: U_def fmt_d_sign_def)
  have "atoi Y = Inr (int (unat (m_year d)))" "atoi M = Inr (int (unat (m_month d)))"
    "atoi A = Inr (int (unat (m_days d)))" "atoi B = Inr (int (unat (m_hours d)))" "atoi C = Inr (int (unat (m_minutes d)))"
    "atoi D = Inr (int (unat (m_seconds d)))" "atoi E = Inr (int (unat (m_microSeconds d)))" "atoi U = Inr (sint (m_utc d))"
    using assms by (simp_all add: defs text_in_range_def atoi_fmt_u atoi_fmt_d_sign)
  moreover have "m_isInterval d = 0" using assms(2) by (simp add: isInterval_def)
  ultimately show ?thesis
    using seg assms(1) by (simp add: fill_date text_length text_no_nul DateTimeData_new_def)
qed

section \<open>The order of intervals and of dates\<close>

lemma lex_mult: "h < k \<Longrightarrow> h' < k \<Longrightarrow> (d * k + h < d' * k + h') \<longleftrightarrow> d < d' \<or> (d = d' \<and> h < h')" for d d' h h' k :: nat
proof -
  assume h: "h < k" "h' < k"
  have "d * k + h < d' * k + h'" if "d < d'"
  proof -
    have "d * k + k \<le> d' * k" using mult_le_mono1 [of "Suc d" d' k] that by simp
    with h show ?thesis by linarith
  qed
  moreover have "d' * k + h' < d * k + h" if "d' < d"
  proof -
    have "d' * k + k \<le> d * k" using mult_le_mono1 [of "Suc d'" d k] that by simp
    with h show ?thesis by linarith
  qed
  ultimately show ?thesis by (cases d d' rule: linorder_cases) auto
qed

lemma lex_time:
  fixes D D' H H' M M' S S' U U' :: nat
  assumes "H < 24" "H' < 24" "M < 60" "M' < 60" "S < 60" "S' < 60" "U < 10 ^ 6" "U' < 10 ^ 6"
  shows "(((D * 24 + H) * 60 + M) * 60 + S) * 10 ^ 6 + U < (((D' * 24 + H') * 60 + M') * 60 + S') * 10 ^ 6 + U' \<longleftrightarrow>
    D < D' \<or> (D = D' \<and> (H < H' \<or> (H = H' \<and> (M < M' \<or> (M = M' \<and> (S < S' \<or> (S = S' \<and> U < U')))))))"
proof -
  have eq: "d * k + h = d' * k + h' \<longleftrightarrow> d = d' \<and> h = h'" if "h < k" "h' < k" for d d' h h' k :: nat
    using lex_mult [OF that, of d d'] lex_mult [OF that(2,1), of d' d] by (metis less_irrefl linorder_neqE_nat)
  show ?thesis unfolding lex_mult [OF assms(7,8)] lex_mult [OF assms(5,6)] lex_mult [OF assms(3,4)] lex_mult [OF assms(1,2)]
      eq [OF assms(5,6)] eq [OF assms(3,4)] eq [OF assms(1,2)] by blast
qed

lemma uint_unat:
  "uint a < uint b \<longleftrightarrow> unat a < unat b" "uint a = uint b \<longleftrightarrow> unat a = unat b" for a b :: "'w::len word"
  by (simp_all only: uint_nat of_nat_less_iff of_nat_eq_iff)

lemma total_micro_less:
  assumes "time_in_range x" "time_in_range y"
  shows "total_micro x < total_micro y \<longleftrightarrow>
    pairs_less [(uint (m_days x), uint (m_days y)), (uint (m_hours x), uint (m_hours y)), (uint (m_minutes x), uint (m_minutes y)),
           (uint (m_seconds x), uint (m_seconds y)), (uint (m_microSeconds x), uint (m_microSeconds y))]"
  unfolding total_micro_def using assms by (subst lex_time) (auto simp: time_in_range_def uint_unat)

text \<open>A date of the calendar: \<open>day_of_year\<close> counts from zero.\<close>

definition day_of_year :: "CIMDateTime \<Rightarrow> nat" where
  "day_of_year d = monthYearDay (isLeap (m_year d)) ! (unat (m_month d) - 1) + unat (m_days d) - 1"

definition valid_date :: "CIMDateTime \<Rightarrow> bool" where
  "valid_date d \<longleftrightarrow> \<not> isInterval d \<and> 1 \<le> unat (m_month d) \<and> unat (m_month d) \<le> 12 \<and> 1 \<le> unat (m_days d) \<and>
     monthYearDay (isLeap (m_year d)) ! (unat (m_month d) - 1) + unat (m_days d) \<le> monthYearDay (isLeap (m_year d)) ! unat (m_month d) \<and>
     time_in_range d"

text \<open>The fields of a date as one number that grows with the calendar.\<close>

definition civil :: "CIMDateTime \<Rightarrow> nat" where
  "civil d = (((((unat (m_year d) * 13 + unat (m_month d)) * 32 + unat (m_days d)) * 24 + unat (m_hours d)) * 60 +
              unat (m_minutes d)) * 60 + unat (m_seconds d)) * 10 ^ 6 + unat (m_microSeconds d)"

lemma month_table:
  "i < 12 \<Longrightarrow> monthYearDay leap ! i \<le> monthYearDay leap ! Suc i"
  "i \<le> j \<Longrightarrow> j < 13 \<Longrightarrow> monthYearDay leap ! i \<le> monthYearDay leap ! j"
  "i < 13 \<Longrightarrow> monthYearDay leap ! i \<le> 366" "length (monthYearDay leap) = 13"
proof -
  have step: "\<forall>i < 12. monthYearDay leap ! i \<le> monthYearDay leap ! Suc i" for leap
    by (cases leap) (simp_all add: monthYearDay_def All_less_Suc numeral_nat)
  then show "i < 12 \<Longrightarrow> monthYearDay leap ! i \<le> monthYearDay leap ! Suc i" by blast
  show mono: "i \<le> j \<Longrightarrow> j < 13 \<Longrightarrow> monthYearDay leap ! i \<le> monthYearDay leap ! j" for i j leap
  proof (induction j)
    case (Suc j)
    then show ?case using step [rule_format, of j leap] by (cases "i = Suc j") auto
  qed simp
  have "monthYearDay leap ! 12 \<le> 366" by (simp add: monthYearDay_def)
  with mono [of i 12 leap] show "i < 13 \<Longrightarrow> monthYearDay leap ! i \<le> 366" by simp
  show "length (monthYearDay leap) = 13" by (simp add: monthYearDay_def)
qed

lemma day_of_year_less: "valid_date d \<Longrightarrow> day_of_year d < 366"
  using month_table(3) [of "unat (m_month d)" "isLeap (m_year d)"] by (auto simp: valid_date_def day_of_year_def)

lemma sint_small: "n < 2 ^ 31 \<Longrightarrow> sint (of_nat n :: 32 word) = int n"
  by (simp add: signed_of_nat signed_take_bit_int_eq_self)

lemma getMagnitude_valid:
  assumes "valid_date d"
  shows "getMagnitude d = Inr (uint (m_seconds d) + 60 * (uint (m_minutes d) + sint (m_utc d)) +
           3600 * (uint (m_hours d) + 24 * (366 * (uint (m_year d) - 1970) + int (day_of_year d))))"
proof -
  define b where "b = monthYearDay (isLeap (m_year d)) ! (unat (m_month d) - 1)"
  have v: "\<not> isInterval d" "1 \<le> unat (m_month d)" "unat (m_month d) \<le> 12" "1 \<le> unat (m_days d)"
    using assms by (simp_all add: valid_date_def)
  have "\<not> m_month d > 12" using v(3) by (simp add: word_less_nat_alt)
  moreover have "arr_get (monthYearDay (isLeap (m_year d))) (uint (m_month d) - 1) = Inr b"
  proof -
    have "uint (m_month d) - 1 = int (unat (m_month d) - 1)" using v(2) by (simp only: uint_nat of_nat_diff)
    moreover have "unat (m_month d) - 1 < length (monthYearDay (isLeap (m_year d)))" using v by (simp add: month_table)
    ultimately show ?thesis by (simp only: arr_get_int b_def)
  qed
  moreover have "of_nat b + m_days d - 1 = (of_nat (day_of_year d) :: 32 word)"
  proof -
    have "of_nat b + m_days d - 1 = (of_nat (b + unat (m_days d)) - of_nat 1 :: 32 word)" by (simp add: of_nat_unat)
    also have "\<dots> = of_nat (b + unat (m_days d) - 1)" using v(4) by (subst of_nat_diff) auto
    finally show ?thesis by (simp add: day_of_year_def b_def)
  qed
  moreover have "sint (of_nat (day_of_year d) :: 32 word) = int (day_of_year d)"
    using day_of_year_less [OF assms] by (intro sint_small) simp
  moreover have "0 \<le> uint (m_year d)" "uint (m_year d) < 2 ^ 16" "0 \<le> uint (m_hours d)" "uint (m_hours d) < 2 ^ 8"
    using uint_bounded [of "m_year d"] uint_bounded [of "m_hours d"] by simp_all
  ultimately show ?thesis
    using v day_of_year_less [OF assms] by (simp add: getMagnitude_def int32_def Let_def)
qed

lemma day_of_year_order:
  assumes "valid_date x" "valid_date y" "m_year x = m_year y"
  shows "day_of_year x < day_of_year y \<longleftrightarrow>
    unat (m_month x) < unat (m_month y) \<or> (unat (m_month x) = unat (m_month y) \<and> unat (m_days x) < unat (m_days y))"
proof -
  have earlier: "day_of_year x < day_of_year y" if "valid_date x" "valid_date y" "m_year x = m_year y" "unat (m_month x) < unat (m_month y)" for x y
  proof -
    have "monthYearDay (isLeap (m_year x)) ! unat (m_month x) \<le> monthYearDay (isLeap (m_year x)) ! (unat (m_month y) - 1)"
      using that by (intro month_table) (auto simp: valid_date_def)
    with that show ?thesis unfolding valid_date_def day_of_year_def by auto
  qed
  show ?thesis
  proof (cases "unat (m_month x)" "unat (m_month y)" rule: linorder_cases)
    case less
    with earlier [OF assms] show ?thesis by simp
  next
    case equal
    with assms show ?thesis by (auto simp: valid_date_def day_of_year_def)
  next
    case greater
    with earlier [of y x] assms show ?thesis by simp
  qed
qed

lemma valid_day_bound: "valid_date d \<Longrightarrow> unat (m_days d) < 32"
proof -
  assume d: "valid_date d"
  have m: "monthYearDay leap ! k \<le> monthYearDay leap ! (k - 1) + 31" if "1 \<le> k" "k \<le> 12" for leap k
  proof -
    have "k \<in> set [1..<13]" using that by simp
    moreover have "\<forall>leap \<in> {True, False}. \<forall>k \<in> set [1..<13]. monthYearDay leap ! k \<le> monthYearDay leap ! (k - 1) + 31"
      by code_simp
    ultimately show ?thesis by blast
  qed
  from m [of "unat (m_month d)" "isLeap (m_year d)"] d show ?thesis by (simp add: valid_date_def)
qed

lemma date_less_iff:
  assumes "valid_date x" "valid_date y"
  shows "unat (m_year x) * 366 + day_of_year x < unat (m_year y) * 366 + day_of_year y \<longleftrightarrow>
    (unat (m_year x) * 13 + unat (m_month x)) * 32 + unat (m_days x) < (unat (m_year y) * 13 + unat (m_month y)) * 32 + unat (m_days y)"
proof -
  have m: "unat (m_month x) < 13" "unat (m_month y) < 13" using assms by (auto simp: valid_date_def)
  have eq: "unat (m_year x) * 13 + unat (m_month x) = unat (m_year y) * 13 + unat (m_month y) \<longleftrightarrow>
     unat (m_year x) = unat (m_year y) \<and> unat (m_month x) = unat (m_month y)"
    using lex_mult [OF m, of "unat (m_year x)" "unat (m_year y)"] lex_mult [OF m(2,1), of "unat (m_year y)" "unat (m_year x)"]
    by (metis less_irrefl linorder_neqE_nat)
  have year: "unat (m_year x) = unat (m_year y) \<Longrightarrow> m_year x = m_year y" by (simp add: word_unat_eq_iff)
  show ?thesis
    unfolding lex_mult [OF day_of_year_less [OF assms(1)] day_of_year_less [OF assms(2)]]
      lex_mult [OF valid_day_bound [OF assms(1)] valid_day_bound [OF assms(2)]] lex_mult [OF m] eq
    using day_of_year_order [OF assms] year by blast
qed

lemma civil_less:
  assumes "valid_date x" "valid_date y"
  shows "civil x < civil y \<longleftrightarrow>
    ((((unat (m_year x) * 366 + day_of_year x) * 24 + unat (m_hours x)) * 60 + unat (m_minutes x)) * 60 + unat (m_seconds x)) * 10 ^ 6 +
      unat (m_microSeconds x) <
    ((((unat (m_year y) * 366 + day_of_year y) * 24 + unat (m_hours y)) * 60 + unat (m_minutes y)) * 60 + unat (m_seconds y)) * 10 ^ 6 +
      unat (m_microSeconds y)"
proof -
  have t: "time_in_range x" "time_in_range y" using assms by (auto simp: valid_date_def)
  note lt = date_less_iff [OF assms] date_less_iff [OF assms(2,1)]
  have eq: "unat (m_year x) * 366 + day_of_year x = unat (m_year y) * 366 + day_of_year y \<longleftrightarrow>
    (unat (m_year x) * 13 + unat (m_month x)) * 32 + unat (m_days x) = (unat (m_year y) * 13 + unat (m_month y)) * 32 + unat (m_days y)"
    using lt by (metis less_irrefl linorder_neqE_nat)
  show ?thesis unfolding civil_def
    using t lt eq by (subst (1 2) lex_time) (simp_all add: time_in_range_def)
qed

lemma magnitude_less:
  assumes "valid_date x" "valid_date y" "m_utc x = m_utc y"
  shows "\<exists>mx my. getMagnitude x = Inr mx \<and> getMagnitude y = Inr my \<and>
    (pairs_less [(mx, my), (uint (m_microSeconds x), uint (m_microSeconds y))] \<longleftrightarrow> civil x < civil y)"
proof -
  define N where "N d = (((unat (m_year d) * 366 + day_of_year d) * 24 + unat (m_hours d)) * 60 + unat (m_minutes d)) * 60 + unat (m_seconds d)" for d
  have mag: "getMagnitude d = Inr (int (N d) + 60 * sint (m_utc d) - 1970 * 366 * 86400)" if "valid_date d" for d
    unfolding getMagnitude_valid [OF that] N_def by (simp only: uint_nat of_nat_add of_nat_mult) (simp add: algebra_simps)
  have "civil x < civil y \<longleftrightarrow> N x < N y \<or> (N x = N y \<and> unat (m_microSeconds x) < unat (m_microSeconds y))"
    unfolding civil_less [OF assms(1,2)] N_def [symmetric]
    using assms by (intro lex_mult) (simp_all add: valid_date_def time_in_range_def)
  then show ?thesis using mag assms by (auto simp: uint_unat)
qed

text \<open>The microseconds from the beginning of the year, with the offset added, and those of a whole year of the calendar.\<close>

definition offset_micro :: "CIMDateTime \<Rightarrow> int" where
  "offset_micro d =
     (((int (day_of_year d) * 24 + uint (m_hours d)) * 60 + uint (m_minutes d) + sint (m_utc d)) * 60 + uint (m_seconds d)) * 10 ^ 6 +
     uint (m_microSeconds d)"

definition day_micro :: int where
  "day_micro = 24 * 60 * 60 * 10 ^ 6"


lemma date_less_years:
  assumes "\<And>ps. swo ps = pairs_less ps" "valid_date x" "valid_date y"
  shows "dateTime_less swo x y =
    Inr (offset_micro x < offset_micro y + (uint (m_year y) - uint (m_year x)) * (366 * day_micro))"
proof -
  have us: "0 \<le> uint (m_microSeconds d)" "uint (m_microSeconds d) < 10 ^ 6" if "valid_date d" for d
  proof -
    have "unat (m_microSeconds d) < 10 ^ 6" using that by (simp add: valid_date_def time_in_range_def)
    then have "int (unat (m_microSeconds d)) < int (10 ^ 6)" by (simp only: of_nat_less_iff)
    then show "uint (m_microSeconds d) < 10 ^ 6" by (simp only: uint_nat of_nat_power of_nat_numeral)
  qed simp
  have lex: "(a < b \<or> (\<not> b < a \<and> u < v)) \<longleftrightarrow> a * 10 ^ 6 + u < b * 10 ^ 6 + v"
    if "0 \<le> u" "u < 10 ^ 6" "0 \<le> v" "v < 10 ^ 6" for a b u v :: int
    using that by auto
  have "\<not> isInterval x" "\<not> isInterval y" using assms by (simp_all add: valid_date_def)
  then show ?thesis
    unfolding dateTime_less_def getMagnitude_valid [OF assms(2)] getMagnitude_valid [OF assms(3)]
    by (simp add: assms(1) lex [OF us [OF assms(2)] us [OF assms(3)], simplified] offset_micro_def day_micro_def algebra_simps)
qed

section \<open>Properties\<close>

text \<open>
  C7: the text of a date or an interval whose fields fit the documented digits has 25 characters, stays inside the
  array \<^verbatim>\<open>toString\<close> writes to, and the constructor from a string reads every field back.
\<close>

theorem dateTime_text_roundtrip:
  assumes "text_in_range d"
  shows "\<exists>s. dateTime_toString d = Inr s \<and> length s = 25 \<and> CIMDateTime_of_String s = Inr d"
  using text_length [OF assms] text_roundtrip_interval [OF assms] text_roundtrip_date [OF assms]
  by (auto simp: dateTime_toString_def CIMDateTime_of_String_def)

definition ex_date :: CIMDateTime where
  "ex_date = \<lparr>m_year = 2004, m_month = 2, m_days = 29, m_hours = 23, m_minutes = 59, m_seconds = 8, m_microSeconds = 12,
              m_utc = - 60, m_isInterval = 0\<rparr>"



theorem dateTime_text_roundtrip_witness:
  "\<exists>s. dateTime_toString ex_date = Inr s \<and> length s = 25 \<and> CIMDateTime_of_String s = Inr ex_date"
  by (rule dateTime_text_roundtrip) (simp add: text_in_range_def ex_date_def isInterval_def)

text \<open>
  C19: an interval made from a number of microseconds has its fields in their ranges and stands for that number, for all
  numbers whose seconds fit into 32 bits: the 32-bit product that wraps around is undone by the cut to the field.
\<close>

theorem CIMDateTime_micro_correct:
  assumes "unat us < 2 ^ 32 * 10 ^ 6"
  shows "total_micro (CIMDateTime_micro us) = unat us \<and> time_in_range (CIMDateTime_micro us) \<and>
         isInterval (CIMDateTime_micro us) \<and> text_in_range (CIMDateTime_micro us)"
proof -
  define q where "q = unat us div 10 ^ 6"
  note f = CIMDateTime_micro_fields [OF assms, folded q_def]
  have "q < 2 ^ 32" using assms by (simp add: q_def less_mult_imp_div_less)
  have "(q div 60 div 60 div 24 * 24 + q div 60 div 60 mod 24) * 60 + q div 60 mod 60 = q div 60" by simp
  then have "((q div 60 div 60 div 24 * 24 + q div 60 div 60 mod 24) * 60 + q div 60 mod 60) * 60 + q mod 60 = q" by simp
  then have "total_micro (CIMDateTime_micro us) = q * 10 ^ 6 + unat us mod 10 ^ 6" unfolding total_micro_def f by simp
  then have "total_micro (CIMDateTime_micro us) = unat us" by (simp add: q_def)
  moreover have "time_in_range (CIMDateTime_micro us)" unfolding time_in_range_def f by simp
  moreover have iv: "isInterval (CIMDateTime_micro us)" by (simp add: isInterval_def CIMDateTime_micro_def Let_def)
  moreover have "text_in_range (CIMDateTime_micro us)"
  proof -
    have "q div 60 div 60 div 24 < 10 ^ 8" using \<open>q < 2 ^ 32\<close> by simp
    moreover have "q div 60 div 60 mod 24 < 100" "q div 60 mod 60 < 100" "q mod 60 < 100"
      by (rule less_trans [OF mod_less_divisor], simp, simp)+
    ultimately show ?thesis using iv unfolding text_in_range_def f
      by (simp add: CIMDateTime_micro_def DateTimeData_new_def Let_def)
  qed
  ultimately show ?thesis by blast
qed

theorem CIMDateTime_micro_correct_witness: "total_micro (CIMDateTime_micro 90061000007) = 90061000007"
  using CIMDateTime_micro_correct [of 90061000007] by simp

text \<open>
  C20: \<^verbatim>\<open>operator<\<close> on two intervals with fields in their ranges compares the durations they stand for.
\<close>

theorem interval_less:
  assumes "\<And>ps. swo ps = pairs_less ps"
    and "isInterval x" "isInterval y" "time_in_range x" "time_in_range y"
  shows "dateTime_less swo x y = Inr (total_micro x < total_micro y)"
  using assms total_micro_less [OF assms(4,5)] by (simp add: dateTime_less_def)

theorem interval_less_witness:
  "dateTime_less pairs_less (CIMDateTime_micro 59000000) (CIMDateTime_micro 60000000) = Inr True"
  by (subst interval_less)
    (simp_all add: isInterval_def time_in_range_def total_micro_def CIMDateTime_micro_def Let_def DateTimeData_new_def)

text \<open>
  C8: \<^verbatim>\<open>operator<\<close> on two dates of the calendar with the same offset from UTC is the order of the calendar: the day count
  with years of 366 days does not change it. The seconds of a date are below 60 here; the second 60 of a minute with a leap
  second, which the header allows, is left out, since \<^verbatim>\<open>getMagnitude\<close> counts it as the first second of the next minute.
\<close>

theorem date_less:
  assumes "\<And>ps. swo ps = pairs_less ps"
    and "valid_date x" "valid_date y" "m_utc x = m_utc y"
  shows "dateTime_less swo x y = Inr (civil x < civil y)"
  using assms magnitude_less [OF assms(2-4)] by (auto simp: dateTime_less_def valid_date_def)

theorem date_less_witness:
  "dateTime_less pairs_less ex_date (ex_date\<lparr>m_month := 3, m_days := 1, m_hours := 0\<rparr>) = Inr True"
  by (subst date_less)
    (simp_all add: ex_date_def valid_date_def isInterval_def time_in_range_def civil_def monthYearDay_def isLeap_def)

text \<open>
  C9: \<^verbatim>\<open>operator<\<close> on two dates of one year with any offsets from UTC is the order of the times of the year with the
  offset added, to the microsecond. This is what the unit test asserts of two dates with different offsets.
\<close>

theorem date_less_offsets:
  assumes "\<And>ps. swo ps = pairs_less ps"
    and "valid_date x" "valid_date y" "m_year x = m_year y"
  shows "dateTime_less swo x y = Inr (offset_micro x < offset_micro y)"
  using date_less_years [OF assms(1-3)] assms(4) by simp

theorem date_less_offsets_witness:
  "dateTime_less pairs_less (ex_date\<lparr>m_hours := 22, m_utc := - 120\<rparr>) (ex_date\<lparr>m_hours := 21, m_utc := 0\<rparr>) = Inr True"
  by (subst date_less_offsets)
    (simp_all add: ex_date_def valid_date_def isInterval_def time_in_range_def offset_micro_def day_of_year_def monthYearDay_def isLeap_def)



text \<open>
  C30: two inputs take the code outside its arrays. A date whose month is zero, which the constructor from a string accepts,
  makes the comparison read before the row of its year in the table of months (in a leap year that is still inside the
  table of the two rows, but outside the array the subscript applies to). An interval with large numbers of days and microseconds, which the
  setters and \<^verbatim>\<open>readObject\<close> accept, makes \<^verbatim>\<open>toString\<close> write beyond its 30 characters.
\<close>

theorem dateTime_out_of_bounds:
  "(m_isInterval d = 0 \<and> m_month d = 0 \<longrightarrow> getMagnitude d = Inl OutOfBoundsException) \<and>
   (m_isInterval e = 1 \<and> 10 ^ 9 \<le> unat (m_days e) \<and> 10 ^ 9 \<le> unat (m_microSeconds e) \<longrightarrow>
    dateTime_toString e = Inl UndefinedBehaviour)"
proof -
  have long: "9 < length (dec n)" if "10 ^ 9 \<le> n" for n
    using length_dec [of 9 n] that by (auto simp only: not_le [symmetric])
  have "30 \<le> length (dateTime_text e)"
    if "m_isInterval e = 1" "10 ^ 9 \<le> unat (m_days e)" "10 ^ 9 \<le> unat (m_microSeconds e)"
    using long [OF that(2)] long [OF that(3)] that(1) by (simp add: dateTime_text_def isInterval_def fmt_u_def)
  then show ?thesis by (auto simp: dateTime_toString_def getMagnitude_def isInterval_def arr_get_def)
qed

theorem dateTime_out_of_bounds_witness:
  "getMagnitude (ex_date\<lparr>m_month := 0\<rparr>) = Inl OutOfBoundsException \<and>
   dateTime_toString (DateTimeData_new\<lparr>m_days := 4294967295, m_microSeconds := 4294967295\<rparr>) = Inl UndefinedBehaviour"
  using dateTime_out_of_bounds [of "ex_date\<lparr>m_month := 0\<rparr>" "DateTimeData_new\<lparr>m_days := 4294967295, m_microSeconds := 4294967295\<rparr>"]
  by (simp add: ex_date_def DateTimeData_new_def)

end
