(* ===== verification/Spec2Isabelle.thy ===== *)
theory Spec2Isabelle
  imports WQL_Theorems WQL_GenCorrect CIM_DataType CIM_DateTime
begin

text \<open>
  Verification of parts of OpenWBEM, a server for the Common Information Model (CIM) written in C++.
  Clients send requests to the object manager, which keeps classes and instances in repositories,
  asks providers for data and answers queries in WQL, the WBEM Query Language. Objects travel between
  client, server and repository in a binary form. The development models two subsystems from their
  sources, the query language and the stream form of data, and shows what they compute.

  \<^bold>\<open>The query language.\<close> A query is parsed into a syntax tree (\<^verbatim>\<open>src/wql\<close>), a visitor turns the tree into
  a select statement whose where clause is a list in postfix form, and the statement is evaluated on
  a property source either directly or after it was compiled into a table of conjunctions
  (\<^verbatim>\<open>src/common\<close>).

  \<^item> \<open>WQL_Operand\<close>: \<^verbatim>\<open>OW_WQLOperation.hpp\<close>, \<^verbatim>\<open>OW_WQLOperand.hpp\<close> and the comparisons \<^verbatim>\<open>_Compare\<close>, \<^verbatim>\<open>_EvaluateRHS\<close> and
    \<^verbatim>\<open>_Evaluate\<close> of \<^verbatim>\<open>OW_WQLCompile.cpp\<close>. Integers are 64-bit words. The doubles, the order of strings and the
    conversions to text are the record \<open>ext\<close> of parameters; \<open>ext_ok\<close> states what is documented of them.
  \<^item> \<open>WQL_Statement\<close>: \<^verbatim>\<open>OW_WQLSelectStatement.cpp\<close>, the statement as a record, the calls of the parser that
    append to it and \<^verbatim>\<open>evaluateWhereClause\<close> with its operand stack.
  \<^item> \<open>WQL_Compile\<close>: \<^verbatim>\<open>OW_WQLCompile.cpp\<close>, the class with its two heaps and its tableau as a record, and one
    definition for each of \<^verbatim>\<open>_buildEvalHeap\<close>, \<^verbatim>\<open>_pushNOTDown\<close>, \<^verbatim>\<open>_factoring\<close>, \<^verbatim>\<open>_gather\<close>, \<^verbatim>\<open>_sortTableau\<close>, \<^verbatim>\<open>compile\<close> and
    \<^verbatim>\<open>evaluate\<close>. The rounds of the loops have definitions of their own.
  \<^item> \<open>WQL_Heap\<close>, \<open>WQL_Push\<close>, \<open>WQL_Factor\<close>, \<open>WQL_Gather\<close>, \<open>WQL_Correct\<close>: the value of a heap, computed from its
    first element to its root, and what each pass does to it. The locale \<open>factor_val\<close> of \<open>WQL_Factor\<close> is
    a distributive structure in which elements have values; it is interpreted on truth values, which
    gives the correctness of factoring, and on the number of disjuncts, which gives its termination.
  \<^item> \<open>WQL_Ast\<close>, \<open>WQL_Gen\<close>, \<open>WQL_GenCorrect\<close>: \<^verbatim>\<open>OW_WQLAst.hpp\<close>, \<^verbatim>\<open>OW_WQLSelectStatementGen.cpp\<close> and \<^verbatim>\<open>OW_WQLImpl.cpp\<close>; one
    datatype for each abstract class of the tree and one function for each method of the visitor. The
    parser that the build generates from the grammar, and the reading of numbers, are parameters.
  \<^item> \<open>WQL_Theorems\<close> and this theory: the properties. Compiling ends, stays inside its arrays and keeps the
    meaning of the clause; every pass alone keeps the value; the generator builds the statement the
    query says or reports an invalid query; the two evaluators agree on equalities. The remaining
    properties state exactly where the code departs from the meaning of a clause.

  \<^bold>\<open>The stream form of data.\<close> Objects are written as signatures, lengths and fields.

  \<^item> \<open>CIM_Stream\<close>: \<^verbatim>\<open>OW_BinarySerialization\<close> and \<^verbatim>\<open>OW_CIMBase.cpp\<close>; a writer gives a list of octets, a reader takes
    one and returns a value with the rest, or an exception. The locale \<open>codec\<close> states that a reader gives
    back what the writer wrote and leaves what follows; \<open>signed_codec\<close> adds the signature that begins the
    form. They are interpreted on the forms of the code. The stream forms of the strings of the blocxx
    library are the parameters of the locale \<open>blocxx_streams\<close>. A reader that \<open>shrinks\<close> its input makes the
    loop of \<^verbatim>\<open>readEnum\<close> end on every stream.
  \<^item> \<open>CIM_DataType\<close>: \<^verbatim>\<open>OW_CIMDataType\<close>, the enumeration of types, the data types and the automaton of
    \<^verbatim>\<open>strToSimpleType\<close>, label by label. It is checked against the table of type names by a consistency test
    of each label, and the test gives the language of the automaton for strings of any length.
  \<^item> \<open>CIM_Text\<close>, \<open>CIM_DateTime\<close>: \<^verbatim>\<open>OW_CIMDateTime\<close> with the functions of the C library it uses to print and read
    numbers. Fields have their widths; products and sums of type \<^verbatim>\<open>int\<close> that overflow are undefined
    behaviour. The lexicographic comparison of the blocxx library is a parameter.

  \<^bold>\<open>Conventions.\<close> \<open>WBEM_Prelude\<close> has the exceptions and the results: \<open>Inl\<close> is an exception, and an access of
  an array outside its bounds, a failed assertion and undefined behaviour are exceptions of their own,
  so that a result \<open>Inr\<close> says that none of them happens. Loops whose end is not evident are partial
  functions into an option, \<open>None\<close> being a loop that does not end, and their lemmas show a result for every
  input that is allowed; no fuel is used. Indices of the heaps are mathematical integers, which differs
  from the code beyond \<open>2\<^sup>3\<^sup>1\<close> elements only. A \<^verbatim>\<open>CIMName\<close> is its string.

  \<^bold>\<open>Not modelled.\<close> The object manager, the repositories, the protocols over HTTP, the authentication, the
  indications and the tools: they are calls of the operating system, of sockets, files and threads, or
  of providers loaded at run time. The lexer and the parser of WQL are generated by the build. Of
  the object model, classes, instances, values and paths are left out, and with them the query
  processor that evaluates a tree over the instances of a class.
\<close>

section \<open>From the text of a query to the answer for an instance\<close>

text \<open>
  C1: For a query that the parser reads as \<^verbatim>\<open>SELECT names FROM class WHERE clause\<close>, with a clause of the supported fragment and
  no ISA test under a NOT, \<^verbatim>\<open>createSelectStatement\<close> returns a statement for that class and those names, \<^verbatim>\<open>compile\<close> returns normally on
  it, and \<^verbatim>\<open>evaluate\<close> returns the two-valued meaning of the clause, on every source on which its tests have an answer and no
  ordering comparison with a null stands under a NOT.
\<close>

theorem query_answer:
  assumes "parse query = Some (Some (select_query ts cls (Some e) semi))" "map (target_name L) ts = map Some ns"
    and "den_aExpr L e = Some (Clause w)" "no_negated_isa w"
  shows "\<exists>s c. createSelectStatement parse L query = Inr s \<and> stmt_className s = cls \<and> selectPropertyNames s = ns \<and>
     compile_where X s WQLCompile_new = Some (Inr c) \<and>
     (\<forall>nz src. ext_ok nz X \<longrightarrow> (\<forall>(op, l, r)\<in>cmps w. test_ok X nz src op l r) \<longrightarrow>
        neg_ok (on_core (negatable_test nz src)) False w \<longrightarrow> evaluate X src c = Inr (wsem (test_value X src) w))"
proof -
  have "den_where L (Some e) = Some (Some (Clause w))" using assms(3) by (simp add: den_where_def)
  from visit_select_query[OF assms(2) this, of cls semi] obtain g where
    g: "visit_stmt L (select_query ts cls (Some e) semi) WQLSelectStatementGen_new = Inr g"
      "stmt_className (m_stmt g) = cls" "selectPropertyNames (m_stmt g) = ns" "operStack (m_stmt g) = postfix w" by auto
  have ops: "\<forall>(op, l, r)\<in>cmps w. test_op op" using den_tests(1)[of L e] assms(3) by (simp add: tests_only_def)
  obtain c where c: "compile_where X (m_stmt g) WQLCompile_new = Some (Inr c)"
    using compile_where_total[OF ops assms(4) g(4)] by blast
  have "createSelectStatement parse L query = Inr (m_stmt g)"
    using assms(1) g(1) by (simp add: createSelectStatement_def visit_ptr_one)
  then show ?thesis using g(2,3) c compile_where_value[OF _ _ _ g(4) c] by blast
qed

definition ex_parse :: "string \<Rightarrow> stmt option option" where
  "ex_parse q = (if q = [] then None else Some (Some (select_query [targetEl_ASTERISK] q (Some ex_expr) None)))"

theorem query_answer_witness:
  "\<exists>s c. createSelectStatement ex_parse ex_lit ''CIM_Disk'' = Inr s \<and> compile_where ex_ext s WQLCompile_new = Some (Inr c) \<and>
     evaluate ex_ext (ex_source ex_props) c = Inr True"
proof -
  have 1: "ex_parse ''CIM_Disk'' = Some (Some (select_query [targetEl_ASTERISK] ''CIM_Disk'' (Some ex_expr) None))"
    "map (target_name ex_lit) [targetEl_ASTERISK] = map Some [''*'']" "no_negated_isa ex_meaning"
    by (simp_all add: ex_parse_def target_name_def ex_meaning_def ex_simps)
  have "\<forall>(op, l, r)\<in>cmps ex_meaning. test_ok ex_ext (\<lambda>_. True) (ex_source ex_props) op l r"
    "neg_ok (on_core (negatable_test (\<lambda>_. True) (ex_source ex_props))) False ex_meaning"
    by (auto simp: ex_meaning_def ex_simps eval_term_def)
  moreover have "wsem (test_value ex_ext (ex_source ex_props)) ex_meaning = True"
    by (simp add: ex_meaning_def ex_simps test_value_def eval_term_def Compare_defs)
  ultimately show ?thesis
    using query_answer[where parse = ex_parse and query = "''CIM_Disk''" and X = ex_ext, OF 1(1,2) ex_expr_den 1(3)] ex_ext_ok by fastforce
qed

end
